(* ===== verification/Fow_Prelude.thy ===== *)
theory Fow_Prelude
  imports Main "HOL-Library.Sublist" "HOL-Library.Word"
begin

text \<open>
  Shared vocabulary of the development: the Python value types the program in
  \<^verbatim>\<open>src/integration/util.py\<close> computes with (\<^verbatim>\<open>bytes\<close>, \<^verbatim>\<open>str\<close>,
  object references), the exceptions it can raise, the result type that carries them,
  and the generic facts on lists and results that the component theories rely on.
  Two fact collections are declared here and filled by the components:
  \<open>fow_ops\<close> holds the defining equations of the modelled operations (unfold them
  with \<open>simp add: fow_ops\<close>), \<open>fow_frame\<close> the frame facts (what an operation
  leaves unchanged).
\<close>

named_theorems fow_ops "defining equations of the modelled operations"
named_theorems fow_frame "frame facts: the fields an operation leaves unchanged"

section \<open>Python values\<close>

text \<open>
  A \<^verbatim>\<open>bytes\<close> object is a list of 8-bit words. A \<^verbatim>\<open>str\<close> is a list of Unicode
  code points (not of bytes: Python's \<^verbatim>\<open>in\<close> and \<^verbatim>\<open>len\<close> work on code points).
  Objects that are shared and mutated (the two \<^verbatim>\<open>Deferred\<close>s of a protocol, the process
  transport) live in stores and are named by a reference, an index into the store.
\<close>

type_synonym byte = "8 word"
type_synonym bytes = "byte list"
type_synonym codepoint = nat
type_synonym str = "codepoint list"
type_synonym ref = nat

text \<open>An ASCII literal of the source, such as \<^verbatim>\<open>"Starting reactor..."\<close>, as a \<^verbatim>\<open>str\<close>.\<close>

definition ascii :: "string \<Rightarrow> str" where
  "ascii s = map of_char s"

text \<open>The same literal as the \<^verbatim>\<open>bytes\<close> a child process writes for it.\<close>

definition ascii_bytes :: "string \<Rightarrow> bytes" where
  "ascii_bytes s = map of_char s"

section \<open>Exceptions and results\<close>

text \<open>
  Every exception the modelled code raises or catches. \<open>Exception msg\<close> is the plain
  \<^verbatim>\<open>Exception("...")\<close> of \<^verbatim>\<open>processEnded\<close>; the others are the library exceptions
  the code depends on: strict UTF-8 decoding, firing a \<^verbatim>\<open>Deferred\<close> twice, signalling a
  process that is gone, and a failed spawn.
\<close>

datatype exn =
    Exception str
  | UnicodeDecodeError
  | AlreadyCalledError
  | ProcessExitedAlready
  | OSError
  | AttributeError

type_synonym 'a result = "exn + 'a"

text \<open>Sequencing of fallible steps: the first exception ends the computation.\<close>

definition and_then :: "'a result \<Rightarrow> ('a \<Rightarrow> 'b result) \<Rightarrow> 'b result" where
  "and_then r f = (case r of Inl e \<Rightarrow> Inl e | Inr x \<Rightarrow> f x)"

definition raises :: "'a result \<Rightarrow> bool" where
  "raises r = (case r of Inl _ \<Rightarrow> True | Inr _ \<Rightarrow> False)"

definition returns :: "'a result \<Rightarrow> bool" where
  "returns r = (case r of Inl _ \<Rightarrow> False | Inr _ \<Rightarrow> True)"

section \<open>Generic facts\<close>

lemma and_then_Inl [simp]: "and_then (Inl e) f = Inl e"
  by (simp add: and_then_def)

lemma and_then_Inr [simp]: "and_then (Inr x) f = f x"
  by (simp add: and_then_def)

lemma and_then_eq_Inr_iff:
  "and_then r f = Inr y \<longleftrightarrow> (\<exists>x. r = Inr x \<and> f x = Inr y)"
  by (cases r) simp_all

lemma and_then_eq_Inl_iff:
  "and_then r f = Inl e \<longleftrightarrow> r = Inl e \<or> (\<exists>x. r = Inr x \<and> f x = Inl e)"
  by (cases r) simp_all

lemma and_then_assoc:
  "and_then (and_then r f) g = and_then r (\<lambda>x. and_then (f x) g)"
  by (cases r) simp_all

lemma raises_simps [simp]: "raises (Inl e)" "\<not> raises (Inr x)"
  by (simp_all add: raises_def)

lemma returns_simps [simp]: "\<not> returns (Inl e)" "returns (Inr x)"
  by (simp_all add: returns_def)

lemma returns_iff: "returns r \<longleftrightarrow> (\<exists>x. r = Inr x)"
  by (cases r) simp_all

lemma raises_iff_not_returns: "raises r \<longleftrightarrow> \<not> returns r"
  by (cases r) simp_all

lemma ascii_Nil [simp]: "ascii [] = []"
  by (simp add: ascii_def)

lemma ascii_append [simp]: "ascii (s @ t) = ascii s @ ascii t"
  by (simp add: ascii_def)

lemma length_ascii [simp]: "length (ascii s) = length s"
  by (simp add: ascii_def)

lemma length_ascii_bytes [simp]: "length (ascii_bytes s) = length s"
  by (simp add: ascii_bytes_def)

text \<open>Facts on contiguous sublists that the marker scan needs.\<close>

lemma sublist_append_left_mono: "sublist m s \<Longrightarrow> sublist m (s @ t)"
  by (auto simp: sublist_append)

lemma sublist_append_right_mono: "sublist m t \<Longrightarrow> sublist m (s @ t)"
  by (auto simp: sublist_append)

lemma sublist_split_across:
  "sublist (m1 @ m2) (s @ m1 @ m2 @ t)"
  by (metis append.assoc sublist_appendI)

text \<open>Stores are lists indexed by references; these are the facts on allocation.\<close>

lemma nth_append_fresh [simp]: "(xs @ [x]) ! length xs = x"
  by simp

lemma nth_append_old: "r < length xs \<Longrightarrow> (xs @ [x]) ! r = xs ! r"
  by (simp add: nth_append)

lemma list_update_append_old:
  "r < length xs \<Longrightarrow> (xs @ ys)[r := v] = xs[r := v] @ ys"
  by (simp add: list_update_append)

end
