(* ===== verification/Py_Text.thy ===== *)
theory Py_Text
  imports Fow_Prelude
begin

text \<open>
  The operations on Python strings that \<^verbatim>\<open>src/integration/util.py\<close> uses:
  the containment test \<^verbatim>\<open>magic_text in output\<close> of \<^verbatim>\<open>out_received\<close>, the
  formatting of a process id inside an f-string, and the two ways the code writes to
  \<^verbatim>\<open>sys.stdout\<close> (\<^verbatim>\<open>sys.stdout.write\<close> and \<^verbatim>\<open>print\<close>). The containment test is
  written as the left-to-right scan it is and proved equal to the library's
  \<open>sublist\<close>; formatting is proved injective through a parser that inverts it.
\<close>

section \<open>Containment: the \<^verbatim>\<open>in\<close> operator on \<^verbatim>\<open>str\<close>\<close>

text \<open>
  \<open>contains m s\<close> is Python's \<^verbatim>\<open>m in s\<close>: some position of \<open>s\<close> starts a copy of
  \<open>m\<close>. The scan tries each start position in turn; the empty string is contained in
  every string, the empty one included.
\<close>

fun contains :: "'a list \<Rightarrow> 'a list \<Rightarrow> bool" where
  "contains m [] = (m = [])"
| "contains m (x # xs) = (prefix m (x # xs) \<or> contains m xs)"

text \<open>The position of the first occurrence, \<^verbatim>\<open>s.find(m)\<close>, with \<open>None\<close> for \<^verbatim>\<open>-1\<close>.\<close>

fun find_str :: "'a list \<Rightarrow> 'a list \<Rightarrow> nat option" where
  "find_str m [] = (if m = [] then Some 0 else None)"
| "find_str m (x # xs) =
     (if prefix m (x # xs) then Some 0 else map_option Suc (find_str m xs))"

section \<open>Formatting a number\<close>

text \<open>
  \<open>str_of_nat n\<close> is \<^verbatim>\<open>str(n)\<close> for a non-negative \<^verbatim>\<open>int\<close>, as the f-string
  \<^verbatim>\<open>f"signaling {process.pid} with TERM"\<close> formats the pid: decimal digits, most
  significant first, no leading zero.
\<close>

fun str_of_nat :: "nat \<Rightarrow> str" where
  "str_of_nat n = (if n < 10 then [48 + n] else str_of_nat (n div 10) @ [48 + n mod 10])"

declare str_of_nat.simps [simp del]

text \<open>The inverse reading of a digit string, \<^verbatim>\<open>int(s)\<close> on digits, folding from the left.\<close>

fun nat_of_digits :: "nat \<Rightarrow> str \<Rightarrow> nat" where
  "nat_of_digits acc [] = acc"
| "nat_of_digits acc (c # cs) = nat_of_digits (10 * acc + (c - 48)) cs"

definition nat_of_str :: "str \<Rightarrow> nat" where
  "nat_of_str s = nat_of_digits 0 s"

section \<open>Writing to \<^verbatim>\<open>sys.stdout\<close>\<close>

text \<open>
  The launcher's own standard output is the text written so far. \<^verbatim>\<open>sys.stdout.write(s)\<close>
  appends \<open>s\<close>; \<^verbatim>\<open>print(s)\<close> appends \<open>s\<close> and a line feed.
\<close>

definition stdout_write :: "str \<Rightarrow> str \<Rightarrow> str" where
  "stdout_write out s = out @ s"

definition py_print :: "str \<Rightarrow> str \<Rightarrow> str" where
  "py_print out s = out @ s @ [10]"

section \<open>Containment is the contiguous-sublist relation\<close>

lemma contains_iff_sublist: "contains m s \<longleftrightarrow> sublist m s"
  by (induction s) (auto simp: sublist_Cons_right)

lemma contains_Nil [simp]: "contains [] s"
  by (simp add: contains_iff_sublist)

lemma contains_self [simp]: "contains m m"
  by (simp add: contains_iff_sublist)

lemma contains_append_left: "contains m s \<Longrightarrow> contains m (s @ t)"
  by (simp add: contains_iff_sublist sublist_append_left_mono)

lemma contains_append_right: "contains m t \<Longrightarrow> contains m (s @ t)"
  by (simp add: contains_iff_sublist sublist_append_right_mono)

lemma contains_embedded [simp]: "contains m (p @ m @ q)"
  by (simp add: contains_iff_sublist)

lemma contains_length_le: "contains m s \<Longrightarrow> length m \<le> length s"
  by (simp add: contains_iff_sublist sublist_length_le)

lemma contains_trans: "contains a b \<Longrightarrow> contains b c \<Longrightarrow> contains a c"
  unfolding contains_iff_sublist by (rule sublist_order.order_trans)

lemma contains_iff_ex: "contains m s \<longleftrightarrow> (\<exists>p q. s = p @ m @ q)"
  by (simp add: contains_iff_sublist sublist_def)

section \<open>The first occurrence\<close>

lemma find_str_None_iff: "find_str m s = None \<longleftrightarrow> \<not> contains m s"
  by (induction s) auto

lemma find_str_Some_iff_contains: "(\<exists>i. find_str m s = Some i) \<longleftrightarrow> contains m s"
  using find_str_None_iff [of m s] by (cases "find_str m s") auto

lemma find_str_occurrence:
  "find_str m s = Some i \<Longrightarrow> prefix m (drop i s) \<and> i + length m \<le> length s"
proof (induction s arbitrary: i)
  case Nil
  then show ?case by (simp split: if_splits)
next
  case (Cons x xs)
  show ?case
  proof (cases "prefix m (x # xs)")
    case True
    with Cons.prems show ?thesis by (auto dest: prefix_length_le)
  next
    case False
    with Cons.prems obtain j where "find_str m xs = Some j" and "i = Suc j"
      by auto
    with Cons.IH [of j] show ?thesis by simp
  qed
qed

lemma find_str_first:
  "find_str m s = Some i \<Longrightarrow> j < i \<Longrightarrow> \<not> prefix m (drop j s)"
proof (induction s arbitrary: i j)
  case Nil
  then show ?case by (simp split: if_splits)
next
  case (Cons x xs)
  show ?case
  proof (cases "prefix m (x # xs)")
    case True
    with Cons.prems show ?thesis by simp
  next
    case False
    with Cons.prems obtain k where k: "find_str m xs = Some k" and i: "i = Suc k"
      by auto
    show ?thesis
    proof (cases j)
      case 0
      with False show ?thesis by simp
    next
      case (Suc j')
      with Cons.prems(2) i have "j' < k" by simp
      with Cons.IH [OF k] Suc show ?thesis by simp
    qed
  qed
qed

section \<open>Formatting and parsing numbers\<close>

lemma str_of_nat_nonempty: "str_of_nat n \<noteq> []"
  by (subst str_of_nat.simps) simp

lemma str_of_nat_digits: "\<forall>c \<in> set (str_of_nat n). 48 \<le> c \<and> c \<le> 57"
proof (induction n rule: str_of_nat.induct)
  case (1 n)
  show ?case
  proof (cases "n < 10")
    case True
    then show ?thesis by (subst str_of_nat.simps) simp
  next
    case False
    with "1.IH" have "\<forall>c \<in> set (str_of_nat (n div 10)). 48 \<le> c \<and> c \<le> 57"
      by simp
    moreover have "n mod 10 \<le> 9" by simp
    ultimately show ?thesis using False
      by (subst str_of_nat.simps) auto
  qed
qed

lemma nat_of_digits_append:
  "nat_of_digits acc (s @ t) = nat_of_digits (nat_of_digits acc s) t"
  by (induction s arbitrary: acc) simp_all

lemma nat_of_digits_str_of_nat: "nat_of_digits 0 (str_of_nat n) = n"
proof (induction n rule: str_of_nat.induct)
  case (1 n)
  show ?case
  proof (cases "n < 10")
    case True
    then show ?thesis by (subst str_of_nat.simps) simp
  next
    case False
    with "1.IH" have "nat_of_digits 0 (str_of_nat (n div 10)) = n div 10"
      by simp
    with False show ?thesis
      by (subst str_of_nat.simps) (simp add: nat_of_digits_append)
  qed
qed

lemma nat_of_str_of_nat [simp]: "nat_of_str (str_of_nat n) = n"
  by (simp add: nat_of_str_def nat_of_digits_str_of_nat)

lemma str_of_nat_inject [simp]: "str_of_nat m = str_of_nat n \<longleftrightarrow> m = n"
  by (metis nat_of_str_of_nat)

section \<open>Standard output only grows\<close>

lemma prefix_stdout_write [simp]: "prefix out (stdout_write out s)"
  by (simp add: stdout_write_def)

lemma prefix_py_print [simp]: "prefix out (py_print out s)"
  by (simp add: py_print_def)

lemma py_print_as_write: "py_print out s = stdout_write out (s @ [10])"
  by (simp add: py_print_def stdout_write_def)

lemma contains_stdout_write: "contains s (stdout_write out s)"
  by (simp add: stdout_write_def contains_iff_sublist)

lemma contains_py_print: "contains s (py_print out s)"
  by (simp add: py_print_def contains_iff_sublist)

end
