(* ===== verification/Twisted_Deferred.thy ===== *)
theory Twisted_Deferred
  imports Fow_Prelude
begin

text \<open>
  The part of Twisted's \<^verbatim>\<open>Deferred\<close> that \<^verbatim>\<open>src/integration/util.py\<close> relies on:
  a \<^verbatim>\<open>Deferred\<close> is created unfired, \<^verbatim>\<open>callback\<close> and \<^verbatim>\<open>errback\<close> fire it with a
  success or a failure and run the callbacks added so far, firing it a second time
  raises \<^verbatim>\<open>AlreadyCalledError\<close>, and \<^verbatim>\<open>addCallback\<close> on a fired \<^verbatim>\<open>Deferred\<close> runs
  the callback at once. Chaining of \<^verbatim>\<open>Deferred\<close>s, cancellation and timeouts are not
  used by the program and are left out. The well-formedness predicate \<open>deferred_wf\<close>
  is kept by every operation; \<open>settled\<close>, \<open>succeeded\<close> and \<open>failed\<close> are what the
  components' theorems say about readiness and exit.
\<close>

section \<open>Data\<close>

text \<open>The current result of a fired \<^verbatim>\<open>Deferred\<close>: a value, or a \<^verbatim>\<open>Failure\<close> wrapping an exception.\<close>

datatype 'v outcome = Success 'v | Failure exn

text \<open>
  The program adds callbacks with \<^verbatim>\<open>addCallback\<close> only, so an entry of the callback
  chain is the function applied to a success; a failure passes through the chain as it
  is (the pass-through errback that \<^verbatim>\<open>addCallback\<close> installs).
\<close>

record 'v deferred =
  called :: bool
  result :: "'v outcome option"
  callbacks :: "('v \<Rightarrow> 'v) list"

section \<open>Operations\<close>

text \<open>\<^verbatim>\<open>Deferred()\<close>: not fired, no result, no callbacks.\<close>

definition Deferred :: "'v deferred" where
  "Deferred = \<lparr>called = False, result = None, callbacks = []\<rparr>"

text \<open>
  The callback chain is run in order on a success, each function on the value the one
  before it returned; a failure is handed through.
\<close>

fun run_callbacks :: "('v \<Rightarrow> 'v) list \<Rightarrow> 'v outcome \<Rightarrow> 'v outcome" where
  "run_callbacks fs (Failure e) = Failure e"
| "run_callbacks fs (Success v) = Success (fold (\<lambda>f. f) fs v)"

text \<open>
  The \<^verbatim>\<open>Deferred\<close> after it was fired with \<open>r\<close>: the chain has run on \<open>r\<close> and is
  empty. Firing is refused when the \<^verbatim>\<open>Deferred\<close> was fired before.
\<close>

definition fired :: "'v deferred \<Rightarrow> 'v outcome \<Rightarrow> 'v deferred" where
  "fired d r = d\<lparr>called := True, result := Some (run_callbacks (callbacks d) r),
                 callbacks := []\<rparr>"

definition fire :: "'v deferred \<Rightarrow> 'v outcome \<Rightarrow> 'v deferred result" where
  "fire d r = (if called d then Inl AlreadyCalledError else Inr (fired d r))"

definition callback :: "'v deferred \<Rightarrow> 'v \<Rightarrow> 'v deferred result" where
  "callback d v = fire d (Success v)"

definition errback :: "'v deferred \<Rightarrow> exn \<Rightarrow> 'v deferred result" where
  "errback d e = fire d (Failure e)"

text \<open>
  \<^verbatim>\<open>addCallback(f)\<close> appends to the chain; on a fired \<^verbatim>\<open>Deferred\<close> the function runs
  immediately on the current result.
\<close>

definition addCallback :: "'v deferred \<Rightarrow> ('v \<Rightarrow> 'v) \<Rightarrow> 'v deferred" where
  "addCallback d f =
     (case result d of
        None \<Rightarrow> d\<lparr>callbacks := callbacks d @ [f]\<rparr>
      | Some r \<Rightarrow> d\<lparr>result := Some (run_callbacks [f] r)\<rparr>)"

section \<open>Observations\<close>

definition settled :: "'v deferred \<Rightarrow> bool" where
  "settled d \<longleftrightarrow> result d \<noteq> None"

definition succeeded :: "'v deferred \<Rightarrow> 'v \<Rightarrow> bool" where
  "succeeded d v \<longleftrightarrow> result d = Some (Success v)"

definition failed :: "'v deferred \<Rightarrow> exn \<Rightarrow> bool" where
  "failed d e \<longleftrightarrow> result d = Some (Failure e)"

definition is_success :: "'v deferred \<Rightarrow> bool" where
  "is_success d = (case result d of Some (Success _) \<Rightarrow> True | _ \<Rightarrow> False)"

definition is_failure :: "'v deferred \<Rightarrow> bool" where
  "is_failure d = (case result d of Some (Failure _) \<Rightarrow> True | _ \<Rightarrow> False)"

text \<open>
  Well-formedness: a \<^verbatim>\<open>Deferred\<close> has a result exactly when it was fired, and a fired
  one has an empty chain (its callbacks have run).
\<close>

definition deferred_wf :: "'v deferred \<Rightarrow> bool" where
  "deferred_wf d \<longleftrightarrow> (called d \<longleftrightarrow> result d \<noteq> None) \<and> (if called d then callbacks d = [] else True)"

lemmas deferred_ops [fow_ops] =
  Deferred_def fired_def fire_def callback_def errback_def addCallback_def

lemmas deferred_obs = settled_def succeeded_def failed_def

section \<open>The callback chain\<close>

lemma run_callbacks_Nil [simp]: "run_callbacks [] r = r"
  by (cases r) simp_all

lemma run_callbacks_append:
  "run_callbacks (fs @ gs) r = run_callbacks gs (run_callbacks fs r)"
  by (cases r) simp_all

lemma run_callbacks_Success_iff:
  "(\<exists>v'. run_callbacks fs r = Success v') \<longleftrightarrow> (\<exists>v. r = Success v)"
  by (cases r) simp_all

lemma run_callbacks_Failure_iff:
  "run_callbacks fs r = Failure e \<longleftrightarrow> r = Failure e"
  by (cases r) simp_all

section \<open>Well-formedness is kept\<close>

lemma Deferred_simps [simp]:
  "\<not> called Deferred" "result Deferred = None" "callbacks Deferred = []"
  by (simp_all add: Deferred_def)

lemma deferred_wf_new [simp]: "deferred_wf Deferred"
  by (simp add: deferred_wf_def)

lemma Deferred_no_outcome [simp]: "\<not> is_success Deferred" "\<not> is_failure Deferred"
  by (simp_all add: is_success_def is_failure_def)

lemma fired_simps [simp]:
  "called (fired d r)"
  "result (fired d r) = Some (run_callbacks (callbacks d) r)"
  "callbacks (fired d r) = []"
  by (simp_all add: fired_def)

lemma fired_wf [simp]: "deferred_wf (fired d r)"
  by (simp add: deferred_wf_def)

lemma fire_wf: "fire d r = Inr d' \<Longrightarrow> deferred_wf d'"
  by (auto simp: fire_def split: if_splits)

lemma callback_wf: "callback d v = Inr d' \<Longrightarrow> deferred_wf d'"
  unfolding callback_def by (rule fire_wf)

lemma errback_wf: "errback d e = Inr d' \<Longrightarrow> deferred_wf d'"
  unfolding errback_def by (rule fire_wf)

lemma addCallback_wf: "deferred_wf d \<Longrightarrow> deferred_wf (addCallback d f)"
  by (auto simp: addCallback_def deferred_wf_def split: option.splits)

section \<open>Firing happens at most once\<close>

lemma fire_unfired [simp]: "\<not> called d \<Longrightarrow> fire d r = Inr (fired d r)"
  by (simp add: fire_def)

lemma fire_fired [simp]: "called d \<Longrightarrow> fire d r = Inl AlreadyCalledError"
  by (simp add: fire_def)

lemma fire_Inr_iff: "(\<exists>d'. fire d r = Inr d') \<longleftrightarrow> \<not> called d"
  by (simp add: fire_def)

lemma fire_Inl_iff: "fire d r = Inl e \<longleftrightarrow> called d \<and> e = AlreadyCalledError"
  by (auto simp: fire_def)

lemma fire_called: "fire d r = Inr d' \<Longrightarrow> called d' \<and> \<not> called d"
  by (auto simp: fire_def split: if_splits)

lemma fire_twice: "fire d r = Inr d' \<Longrightarrow> fire d' r' = Inl AlreadyCalledError"
  by (auto dest: fire_called)

lemma callback_twice: "callback d v = Inr d' \<Longrightarrow> callback d' v' = Inl AlreadyCalledError"
  unfolding callback_def by (rule fire_twice)

lemma errback_after_callback:
  "callback d v = Inr d' \<Longrightarrow> errback d' e = Inl AlreadyCalledError"
  unfolding callback_def errback_def by (rule fire_twice)

lemma callback_after_errback:
  "errback d e = Inr d' \<Longrightarrow> callback d' v = Inl AlreadyCalledError"
  unfolding callback_def errback_def by (rule fire_twice)

section \<open>Results\<close>

lemma callback_plain:
  "\<not> called d \<Longrightarrow> callbacks d = [] \<Longrightarrow> callback d v = Inr d' \<Longrightarrow> succeeded d' v"
  by (auto simp: callback_def succeeded_def)

lemma errback_plain:
  "\<not> called d \<Longrightarrow> callbacks d = [] \<Longrightarrow> errback d e = Inr d' \<Longrightarrow> failed d' e"
  by (auto simp: errback_def failed_def)

lemma failed_fired_Failure [simp]: "failed (fired d (Failure e)) e' \<longleftrightarrow> e' = e"
  by (auto simp: failed_def)

lemma succeeded_fired_Success [simp]:
  "succeeded (fired d (Success v)) v' \<longleftrightarrow> v' = fold (\<lambda>f. f) (callbacks d) v"
  by (auto simp: succeeded_def)

lemma callback_settled: "callback d v = Inr d' \<Longrightarrow> settled d'"
  by (auto simp: callback_def fire_def settled_def split: if_splits)

lemma errback_settled: "errback d e = Inr d' \<Longrightarrow> settled d'"
  by (auto simp: errback_def fire_def settled_def split: if_splits)

lemma wf_settled_iff_called: "deferred_wf d \<Longrightarrow> settled d \<longleftrightarrow> called d"
  by (auto simp: deferred_wf_def settled_def)

lemma is_success_fired [simp]: "is_success (fired d r) \<longleftrightarrow> (\<exists>v. r = Success v)"
  by (cases r) (simp_all add: is_success_def)

lemma is_failure_fired [simp]: "is_failure (fired d r) \<longleftrightarrow> (\<exists>e. r = Failure e)"
  by (cases r) (simp_all add: is_failure_def)

lemma is_success_iff: "is_success d \<longleftrightarrow> (\<exists>v. succeeded d v)"
  by (auto simp: is_success_def succeeded_def split: option.splits outcome.splits)

lemma is_failure_iff: "is_failure d \<longleftrightarrow> (\<exists>e. failed d e)"
  by (auto simp: is_failure_def failed_def split: option.splits outcome.splits)

lemma unfired_no_outcome:
  "deferred_wf d \<Longrightarrow> \<not> called d \<Longrightarrow> \<not> is_success d \<and> \<not> is_failure d \<and> result d = None"
  by (auto simp: deferred_wf_def is_success_def is_failure_def)

lemma succeeded_not_failed: "succeeded d v \<Longrightarrow> \<not> failed d e"
  by (simp add: succeeded_def failed_def)

lemma succeeded_settled: "succeeded d v \<Longrightarrow> settled d"
  by (simp add: succeeded_def settled_def)

lemma failed_settled: "failed d e \<Longrightarrow> settled d"
  by (simp add: failed_def settled_def)

lemma settled_cases:
  "settled d \<longleftrightarrow> (\<exists>v. succeeded d v) \<or> (\<exists>e. failed d e)"
proof
  assume "settled d"
  then obtain r where r: "result d = Some r" by (auto simp: settled_def)
  then show "(\<exists>v. succeeded d v) \<or> (\<exists>e. failed d e)"
    by (cases r) (auto simp: succeeded_def failed_def)
qed (auto simp: deferred_obs)

text \<open>
  A callback added with \<^verbatim>\<open>addCallback\<close> maps the value of a success, whether it is
  added before or after the \<^verbatim>\<open>Deferred\<close> fires, and leaves a failure as it is.
\<close>

lemma addCallback_then_callback:
  "deferred_wf d \<Longrightarrow> \<not> called d \<Longrightarrow> callbacks d = [] \<Longrightarrow>
   callback (addCallback d f) v = Inr d' \<Longrightarrow> succeeded d' (f v)"
  by (auto simp: deferred_ops succeeded_def deferred_wf_def split: option.splits if_splits)

lemma addCallback_then_errback:
  "deferred_wf d \<Longrightarrow> \<not> called d \<Longrightarrow> callbacks d = [] \<Longrightarrow>
   errback (addCallback d f) e = Inr d' \<Longrightarrow> failed d' e"
  by (auto simp: deferred_ops failed_def deferred_wf_def split: option.splits if_splits)

lemma addCallback_succeeded: "succeeded d v \<Longrightarrow> succeeded (addCallback d f) (f v)"
  by (simp add: deferred_ops succeeded_def)

lemma addCallback_failed: "failed d e \<Longrightarrow> failed (addCallback d f) e"
  by (simp add: deferred_ops failed_def)

lemma addCallback_called [simp]: "called (addCallback d f) = called d"
  by (simp add: deferred_ops split: option.splits)

lemma addCallback_settled [simp]: "settled (addCallback d f) = settled d"
  by (simp add: deferred_ops settled_def split: option.splits)

end
