(* ===== verification/Py_Runtime.thy ===== *)
theory Py_Runtime
  imports Py_Text Twisted_Deferred
begin

text \<open>
  The mutable world the code of \<^verbatim>\<open>src/integration/util.py\<close> runs in, as far as the
  protocol class needs it: a store of \<^verbatim>\<open>Deferred\<close> objects and the launcher's own
  \<^verbatim>\<open>sys.stdout\<close>. A \<^verbatim>\<open>Deferred\<close> is named by its index in the store, so two
  variables that hold the same \<^verbatim>\<open>Deferred\<close> (the protocol's \<^verbatim>\<open>magic_seen\<close> and the value
  \<^verbatim>\<open>run_service\<close> returns) are the same reference here. The record is extended by the
  launcher with the process transports and the session's finalizers; the operations are
  stated over the record scheme, so they apply to every extension and leave its further
  fields alone.
\<close>

section \<open>Values and the world\<close>

text \<open>
  The values a \<^verbatim>\<open>Deferred\<close> of the program is fired with: \<^verbatim>\<open>None\<close>, the protocol
  object (\<^verbatim>\<open>d.callback(self)\<close>), and a process transport by reference.
\<close>

datatype pyval = PyNone | PyProtocol | PyProcess ref

record world =
  deferreds :: "pyval deferred list"
  sys_stdout :: str

text \<open>The world before the program has run: no \<^verbatim>\<open>Deferred\<close>, nothing printed.\<close>

definition empty_world :: world where
  "empty_world = \<lparr>deferreds = [], sys_stdout = []\<rparr>"

section \<open>Operations on the store\<close>

text \<open>\<^verbatim>\<open>Deferred()\<close> allocates a fresh object and yields its reference.\<close>

definition new_deferred :: "'a world_scheme \<Rightarrow> ref \<times> 'a world_scheme" where
  "new_deferred w = (length (deferreds w), w\<lparr>deferreds := deferreds w @ [Deferred]\<rparr>)"

definition deferred_at :: "'a world_scheme \<Rightarrow> ref \<Rightarrow> pyval deferred" where
  "deferred_at w r = deferreds w ! r"

definition valid_ref :: "'a world_scheme \<Rightarrow> ref \<Rightarrow> bool" where
  "valid_ref w r \<longleftrightarrow> r < length (deferreds w)"

definition set_deferred :: "'a world_scheme \<Rightarrow> ref \<Rightarrow> pyval deferred \<Rightarrow> 'a world_scheme" where
  "set_deferred w r d = w\<lparr>deferreds := (deferreds w)[r := d]\<rparr>"

text \<open>\<^verbatim>\<open>d.callback(v)\<close>, \<^verbatim>\<open>d.errback(e)\<close> and \<^verbatim>\<open>d.addCallback(f)\<close> on the object \<open>r\<close> names.\<close>

definition callback_at :: "'a world_scheme \<Rightarrow> ref \<Rightarrow> pyval \<Rightarrow> 'a world_scheme result" where
  "callback_at w r v = and_then (callback (deferred_at w r) v) (\<lambda>d. Inr (set_deferred w r d))"

definition errback_at :: "'a world_scheme \<Rightarrow> ref \<Rightarrow> exn \<Rightarrow> 'a world_scheme result" where
  "errback_at w r e = and_then (errback (deferred_at w r) e) (\<lambda>d. Inr (set_deferred w r d))"

definition addCallback_at ::
  "'a world_scheme \<Rightarrow> ref \<Rightarrow> (pyval \<Rightarrow> pyval) \<Rightarrow> 'a world_scheme" where
  "addCallback_at w r f = set_deferred w r (addCallback (deferred_at w r) f)"

section \<open>Standard output\<close>

definition write_stdout :: "'a world_scheme \<Rightarrow> str \<Rightarrow> 'a world_scheme" where
  "write_stdout w s = w\<lparr>sys_stdout := stdout_write (sys_stdout w) s\<rparr>"

definition print_stdout :: "'a world_scheme \<Rightarrow> str \<Rightarrow> 'a world_scheme" where
  "print_stdout w s = w\<lparr>sys_stdout := py_print (sys_stdout w) s\<rparr>"

section \<open>Well-formed stores\<close>

definition store_wf :: "'a world_scheme \<Rightarrow> bool" where
  "store_wf w \<longleftrightarrow> list_all deferred_wf (deferreds w)"

section \<open>Footprints\<close>

text \<open>
  \<open>touches_only w R w'\<close>: the world \<open>w'\<close> differs from \<open>w\<close> at most in the
  \<^verbatim>\<open>Deferred\<close>s that the references in \<open>R\<close> name and in what was printed; no object was
  allocated and the fields of an extension of the record are as they were. The
  components state in these terms what a call leaves alone.
\<close>

definition touches_only :: "'a world_scheme \<Rightarrow> ref set \<Rightarrow> 'a world_scheme \<Rightarrow> bool" where
  "touches_only w R w' \<longleftrightarrow>
     world.more w' = world.more w \<and> length (deferreds w') = length (deferreds w) \<and>
     (\<forall>r. r \<notin> R \<longrightarrow> deferred_at w' r = deferred_at w r)"

lemmas runtime_ops [fow_ops] =
  new_deferred_def deferred_at_def valid_ref_def set_deferred_def
  callback_at_def errback_at_def addCallback_at_def write_stdout_def print_stdout_def

section \<open>Frame facts: what each operation leaves alone\<close>

lemma write_stdout_frame [simp, fow_frame]:
  "deferreds (write_stdout w s) = deferreds w"
  "valid_ref (write_stdout w s) r = valid_ref w r"
  "deferred_at (write_stdout w s) r = deferred_at w r"
  "store_wf (write_stdout w s) = store_wf w"
  by (simp_all add: write_stdout_def valid_ref_def deferred_at_def store_wf_def)

lemma print_stdout_frame [simp, fow_frame]:
  "deferreds (print_stdout w s) = deferreds w"
  "valid_ref (print_stdout w s) r = valid_ref w r"
  "deferred_at (print_stdout w s) r = deferred_at w r"
  "store_wf (print_stdout w s) = store_wf w"
  by (simp_all add: print_stdout_def valid_ref_def deferred_at_def store_wf_def)

lemma sys_stdout_write [simp]: "sys_stdout (write_stdout w s) = sys_stdout w @ s"
  by (simp add: write_stdout_def stdout_write_def)

lemma sys_stdout_print [simp]: "sys_stdout (print_stdout w s) = sys_stdout w @ s @ [10]"
  by (simp add: print_stdout_def py_print_def)

lemma set_deferred_frame [simp, fow_frame]:
  "sys_stdout (set_deferred w r d) = sys_stdout w"
  "valid_ref (set_deferred w r d) r' = valid_ref w r'"
  "length (deferreds (set_deferred w r d)) = length (deferreds w)"
  by (simp_all add: set_deferred_def valid_ref_def)

lemma deferred_at_set_same [simp]:
  "valid_ref w r \<Longrightarrow> deferred_at (set_deferred w r d) r = d"
  by (simp add: set_deferred_def deferred_at_def valid_ref_def)

lemma deferred_at_set_other [simp]:
  "r' \<noteq> r \<Longrightarrow> deferred_at (set_deferred w r d) r' = deferred_at w r'"
  by (simp add: set_deferred_def deferred_at_def)

lemma deferred_at_set_deferred:
  "valid_ref w r \<Longrightarrow>
   deferred_at (set_deferred w r d) r' = (if r' = r then d else deferred_at w r')"
  by simp

lemma store_wf_set:
  "store_wf w \<Longrightarrow> deferred_wf d \<Longrightarrow> store_wf (set_deferred w r d)"
  by (auto simp: store_wf_def set_deferred_def list_all_iff dest: set_update_subset_insert [THEN subsetD])

lemma store_wf_at: "store_wf w \<Longrightarrow> valid_ref w r \<Longrightarrow> deferred_wf (deferred_at w r)"
  by (simp add: store_wf_def valid_ref_def deferred_at_def list_all_length)

lemma empty_world_simps [simp]:
  "deferreds empty_world = []" "sys_stdout empty_world = []" "store_wf empty_world"
  by (simp_all add: empty_world_def store_wf_def)

section \<open>Allocation\<close>

lemma new_deferred_fresh:
  "new_deferred w = (r, w') \<Longrightarrow> \<not> valid_ref w r \<and> valid_ref w' r \<and> deferred_at w' r = Deferred"
  by (auto simp: new_deferred_def valid_ref_def deferred_at_def)

lemma new_deferred_old:
  "new_deferred w = (r, w') \<Longrightarrow> valid_ref w r' \<Longrightarrow>
   valid_ref w' r' \<and> deferred_at w' r' = deferred_at w r' \<and> r' \<noteq> r"
  by (auto simp: new_deferred_def valid_ref_def deferred_at_def nth_append)

lemma new_deferred_frame [fow_frame]:
  "new_deferred w = (r, w') \<Longrightarrow> sys_stdout w' = sys_stdout w"
  by (auto simp: new_deferred_def)

lemma new_deferred_wf: "new_deferred w = (r, w') \<Longrightarrow> store_wf w \<Longrightarrow> store_wf w'"
  by (auto simp: new_deferred_def store_wf_def)

section \<open>Firing through a reference\<close>

lemma callback_at_eq:
  "callback_at w r v =
     (if called (deferred_at w r) then Inl AlreadyCalledError
      else Inr (set_deferred w r (fired (deferred_at w r) (Success v))))"
  by (simp add: callback_at_def callback_def fire_def)

lemma errback_at_eq:
  "errback_at w r e =
     (if called (deferred_at w r) then Inl AlreadyCalledError
      else Inr (set_deferred w r (fired (deferred_at w r) (Failure e))))"
  by (simp add: errback_at_def errback_def fire_def)

lemma callback_at_Inr_iff:
  "callback_at w r v = Inr w' \<longleftrightarrow>
   \<not> called (deferred_at w r) \<and> w' = set_deferred w r (fired (deferred_at w r) (Success v))"
  by (auto simp: callback_at_eq)

lemma errback_at_Inr_iff:
  "errback_at w r e = Inr w' \<longleftrightarrow>
   \<not> called (deferred_at w r) \<and> w' = set_deferred w r (fired (deferred_at w r) (Failure e))"
  by (auto simp: errback_at_eq)

lemma callback_at_Inl_iff:
  "callback_at w r v = Inl e \<longleftrightarrow> called (deferred_at w r) \<and> e = AlreadyCalledError"
  by (auto simp: callback_at_eq)

lemma errback_at_Inl_iff:
  "errback_at w r e = Inl e' \<longleftrightarrow> called (deferred_at w r) \<and> e' = AlreadyCalledError"
  by (auto simp: errback_at_eq)

lemma callback_at_frame [fow_frame]:
  assumes "callback_at w r v = Inr w'"
  shows "sys_stdout w' = sys_stdout w"
    and "valid_ref w' r' = valid_ref w r'"
    and "r' \<noteq> r \<Longrightarrow> deferred_at w' r' = deferred_at w r'"
  using assms by (auto simp: callback_at_Inr_iff)

lemma errback_at_frame [fow_frame]:
  assumes "errback_at w r e = Inr w'"
  shows "sys_stdout w' = sys_stdout w"
    and "valid_ref w' r' = valid_ref w r'"
    and "r' \<noteq> r \<Longrightarrow> deferred_at w' r' = deferred_at w r'"
  using assms by (auto simp: errback_at_Inr_iff)

lemma callback_at_called:
  "callback_at w r v = Inr w' \<Longrightarrow> valid_ref w r \<Longrightarrow> called (deferred_at w' r)"
  by (auto simp: callback_at_Inr_iff)

lemma errback_at_called:
  "errback_at w r e = Inr w' \<Longrightarrow> valid_ref w r \<Longrightarrow> called (deferred_at w' r)"
  by (auto simp: errback_at_Inr_iff)

lemma callback_at_result:
  "callback_at w r v = Inr w' \<Longrightarrow> valid_ref w r \<Longrightarrow>
   result (deferred_at w' r) = Some (run_callbacks (callbacks (deferred_at w r)) (Success v))"
  by (auto simp: callback_at_Inr_iff)

lemma errback_at_result:
  "errback_at w r e = Inr w' \<Longrightarrow> valid_ref w r \<Longrightarrow>
   result (deferred_at w' r) = Some (run_callbacks (callbacks (deferred_at w r)) (Failure e))"
  by (auto simp: errback_at_Inr_iff)

lemma callback_at_wf:
  "callback_at w r v = Inr w' \<Longrightarrow> store_wf w \<Longrightarrow> store_wf w'"
  by (auto simp: callback_at_Inr_iff intro!: store_wf_set)

lemma errback_at_wf:
  "errback_at w r e = Inr w' \<Longrightarrow> store_wf w \<Longrightarrow> store_wf w'"
  by (auto simp: errback_at_Inr_iff intro!: store_wf_set)

lemma addCallback_at_frame [simp, fow_frame]:
  "sys_stdout (addCallback_at w r f) = sys_stdout w"
  "valid_ref (addCallback_at w r f) r' = valid_ref w r'"
  by (simp_all add: addCallback_at_def)

lemma addCallback_at_other [simp]:
  "r' \<noteq> r \<Longrightarrow> deferred_at (addCallback_at w r f) r' = deferred_at w r'"
  by (simp add: addCallback_at_def)

lemma addCallback_at_same [simp]:
  "valid_ref w r \<Longrightarrow> deferred_at (addCallback_at w r f) r = addCallback (deferred_at w r) f"
  by (simp add: addCallback_at_def)

lemma addCallback_at_wf:
  "store_wf w \<Longrightarrow> valid_ref w r \<Longrightarrow> store_wf (addCallback_at w r f)"
  by (simp add: addCallback_at_def store_wf_set store_wf_at addCallback_wf)

section \<open>Footprints of the operations\<close>

lemma touches_only_refl [simp]: "touches_only w R w"
  by (simp add: touches_only_def)

lemma touches_only_trans:
  "touches_only w R w' \<Longrightarrow> touches_only w' R' w'' \<Longrightarrow> touches_only w (R \<union> R') w''"
  by (simp add: touches_only_def)

lemma touches_only_mono: "touches_only w R w' \<Longrightarrow> R \<subseteq> R' \<Longrightarrow> touches_only w R' w'"
  by (auto simp: touches_only_def)

lemma touches_only_more: "touches_only w R w' \<Longrightarrow> world.more w' = world.more w"
  by (simp add: touches_only_def)

lemma touches_only_valid_ref: "touches_only w R w' \<Longrightarrow> valid_ref w' r = valid_ref w r"
  by (simp add: touches_only_def valid_ref_def)

lemma touches_only_at: "touches_only w R w' \<Longrightarrow> r \<notin> R \<Longrightarrow> deferred_at w' r = deferred_at w r"
  by (simp add: touches_only_def)

lemma touches_only_stdout [simp]:
  "touches_only w R (write_stdout w s)" "touches_only w R (print_stdout w s)"
  by (simp_all add: touches_only_def write_stdout_def print_stdout_def deferred_at_def)

lemma touches_only_from_stdout [simp]:
  "touches_only (write_stdout w s) R w' = touches_only w R w'"
  "touches_only (print_stdout w s) R w' = touches_only w R w'"
  by (simp_all add: touches_only_def write_stdout_def print_stdout_def deferred_at_def)

lemma touches_only_set: "r \<in> R \<Longrightarrow> touches_only w R (set_deferred w r d)"
  by (auto simp: touches_only_def set_deferred_def deferred_at_def) (metis nth_list_update_neq)

lemma callback_at_touches: "callback_at w r v = Inr w' \<Longrightarrow> touches_only w {r} w'"
  by (auto simp: callback_at_Inr_iff touches_only_set)

lemma errback_at_touches: "errback_at w r e = Inr w' \<Longrightarrow> touches_only w {r} w'"
  by (auto simp: errback_at_Inr_iff touches_only_set)

lemma addCallback_at_touches: "touches_only w {r} (addCallback_at w r f)"
  by (simp add: addCallback_at_def touches_only_set)

end
