(* ===== verification/Utf8.thy ===== *)
theory Utf8
  imports Fow_Prelude
begin

text \<open>
  The codec behind \<^verbatim>\<open>data.decode("utf8")\<close>, which \<^verbatim>\<open>out_received\<close> and
  \<^verbatim>\<open>err_received\<close> call on every chunk of child output. The call passes no
  \<^verbatim>\<open>errors\<close> argument, so decoding is strict: a byte sequence that is not well-formed
  UTF-8 raises \<^verbatim>\<open>UnicodeDecodeError\<close>, and so does a chunk that ends inside a
  multi-byte character. The decoder follows the table of well-formed byte sequences of
  the Unicode standard (no overlong forms, no surrogates, nothing above U+10FFFF).
  \<open>encode_utf8\<close> is the reference encoder the decoder is proved to invert.
\<close>

section \<open>Decoding\<close>

text \<open>A continuation byte is \<^verbatim>\<open>10xxxxxx\<close>.\<close>

definition is_cont :: "nat \<Rightarrow> bool" where
  "is_cont b \<longleftrightarrow> 128 \<le> b \<and> b \<le> 191"

text \<open>
  \<open>utf8_first bs\<close> decodes the character at the head of the byte values \<open>bs\<close>: the code
  point and the number of bytes it took, or \<open>None\<close> when the head is not a well-formed
  sequence. The second byte of a three- or four-byte form is restricted after the lead
  bytes \<^verbatim>\<open>E0\<close>, \<^verbatim>\<open>ED\<close>, \<^verbatim>\<open>F0\<close> and \<^verbatim>\<open>F4\<close>, which excludes overlong forms, surrogates
  and code points past U+10FFFF.
\<close>

fun utf8_first :: "nat list \<Rightarrow> (codepoint \<times> nat) option" where
  "utf8_first [] = None"
| "utf8_first (b0 # bs) =
     (if b0 < 128 then Some (b0, 1)
      else if 194 \<le> b0 \<and> b0 \<le> 223 then
        (case bs of
           b1 # _ \<Rightarrow>
             if is_cont b1 then Some ((b0 - 192) * 64 + (b1 - 128), 2) else None
         | _ \<Rightarrow> None)
      else if 224 \<le> b0 \<and> b0 \<le> 239 then
        (case bs of
           b1 # b2 # _ \<Rightarrow>
             if is_cont b1 \<and> is_cont b2
                \<and> (if b0 = 224 then 160 \<le> b1 else True)
                \<and> (if b0 = 237 then b1 \<le> 159 else True)
             then Some ((b0 - 224) * 4096 + (b1 - 128) * 64 + (b2 - 128), 3)
             else None
         | _ \<Rightarrow> None)
      else if 240 \<le> b0 \<and> b0 \<le> 244 then
        (case bs of
           b1 # b2 # b3 # _ \<Rightarrow>
             if is_cont b1 \<and> is_cont b2 \<and> is_cont b3
                \<and> (if b0 = 240 then 144 \<le> b1 else True)
                \<and> (if b0 = 244 then b1 \<le> 143 else True)
             then Some ((b0 - 240) * 262144 + (b1 - 128) * 4096
                        + (b2 - 128) * 64 + (b3 - 128), 4)
             else None
         | _ \<Rightarrow> None)
      else None)"

lemma utf8_first_bounds:
  "utf8_first bs = Some (c, n) \<Longrightarrow> 0 < n \<and> n \<le> length bs"
  by (cases bs) (auto split: if_splits list.splits)

text \<open>
  The whole input is decoded character by character; the first ill-formed position
  raises. The recursion consumes at least one byte per character.
\<close>

function decode_vals :: "nat list \<Rightarrow> str result" where
  "decode_vals bs =
     (if bs = [] then Inr []
      else (case utf8_first bs of
              None \<Rightarrow> Inl UnicodeDecodeError
            | Some (c, n) \<Rightarrow> and_then (decode_vals (drop n bs)) (\<lambda>cs. Inr (c # cs))))"
  by pat_completeness auto
termination
  by (relation "measure length") (auto dest: utf8_first_bounds)

declare decode_vals.simps [simp del]

text \<open>\<^verbatim>\<open>data.decode("utf8")\<close> on a \<^verbatim>\<open>bytes\<close> object.\<close>

definition decode_utf8 :: "bytes \<Rightarrow> str result" where
  "decode_utf8 data = decode_vals (map unat data)"

section \<open>Encoding (reference)\<close>


definition encode_cp :: "codepoint \<Rightarrow> nat list" where
  "encode_cp c =
     (if c < 128 then [c]
      else if c < 2048 then [192 + c div 64, 128 + c mod 64]
      else if c < 65536 then [224 + c div 4096, 128 + c div 64 mod 64, 128 + c mod 64]
      else [240 + c div 262144, 128 + c div 4096 mod 64,
            128 + c div 64 mod 64, 128 + c mod 64])"



section \<open>Unfolding the decoder\<close>

lemma decode_vals_Nil [simp]: "decode_vals [] = Inr []"
  by (simp add: decode_vals.simps)

lemma decode_vals_Cons:
  "decode_vals (b # bs) =
     (case utf8_first (b # bs) of
        None \<Rightarrow> Inl UnicodeDecodeError
      | Some (c, n) \<Rightarrow> and_then (decode_vals (drop n (b # bs))) (\<lambda>cs. Inr (c # cs)))"
  by (subst decode_vals.simps) simp

lemma decode_vals_first:
  "utf8_first bs = Some (c, n) \<Longrightarrow>
   decode_vals bs = and_then (decode_vals (drop n bs)) (\<lambda>cs. Inr (c # cs))"
  by (cases bs) (simp_all add: decode_vals_Cons)

lemma decode_vals_bad:
  "bs \<noteq> [] \<Longrightarrow> utf8_first bs = None \<Longrightarrow> decode_vals bs = Inl UnicodeDecodeError"
  by (cases bs) (simp_all add: decode_vals_Cons)

lemma decode_utf8_Nil [simp]: "decode_utf8 [] = Inr []"
  by (simp add: decode_utf8_def)

lemma decode_vals_error: "decode_vals bs = Inl e \<Longrightarrow> e = UnicodeDecodeError"
proof (induction bs rule: decode_vals.induct)
  case (1 bs)
  show ?case
  proof (cases "bs = []")
    case True
    with "1.prems" show ?thesis by simp
  next
    case False
    show ?thesis
    proof (cases "utf8_first bs")
      case None
      with False "1.prems" show ?thesis by (simp add: decode_vals_bad)
    next
      case (Some cn)
      obtain c n where cn: "cn = (c, n)" by (cases cn)
      with Some "1.prems" have "decode_vals (drop n bs) = Inl e"
        by (auto simp: decode_vals_first and_then_eq_Inl_iff)
      with "1.IH" [OF False Some [unfolded cn] refl] show ?thesis by simp
    qed
  qed
qed

lemma decode_utf8_error: "decode_utf8 data = Inl e \<Longrightarrow> e = UnicodeDecodeError"
  unfolding decode_utf8_def by (rule decode_vals_error)

section \<open>Decoding distributes over concatenation of decodable chunks\<close>

lemma utf8_first_append:
  "utf8_first a = Some (c, n) \<Longrightarrow> utf8_first (a @ b) = Some (c, n)"
  by (cases a) (auto split: if_splits list.splits)

lemma decode_vals_append:
  "decode_vals a = Inr s \<Longrightarrow>
   decode_vals (a @ b) = and_then (decode_vals b) (\<lambda>t. Inr (s @ t))"
proof (induction a arbitrary: s rule: decode_vals.induct)
  case (1 a)
  show ?case
  proof (cases "a = []")
    case True
    with "1.prems" show ?thesis
      by (cases "decode_vals b") simp_all
  next
    case False
    from False "1.prems" obtain c n where first: "utf8_first a = Some (c, n)"
      by (cases "utf8_first a") (auto simp: decode_vals_bad)
    with "1.prems" obtain s' where rest: "decode_vals (drop n a) = Inr s'" and s: "s = c # s'"
      by (auto simp: decode_vals_first and_then_eq_Inr_iff)
    from first have n: "n \<le> length a" by (simp add: utf8_first_bounds)
    from "1.IH" [OF False first refl rest]
    have "decode_vals (drop n a @ b) = and_then (decode_vals b) (\<lambda>t. Inr (s' @ t))" .
    moreover from first have "utf8_first (a @ b) = Some (c, n)"
      by (rule utf8_first_append)
    ultimately show ?thesis using n s
      by (cases "decode_vals b") (simp_all add: decode_vals_first)
  qed
qed

lemma decode_utf8_append:
  "decode_utf8 a = Inr s \<Longrightarrow>
   decode_utf8 (a @ b) = and_then (decode_utf8 b) (\<lambda>t. Inr (s @ t))"
  by (simp add: decode_utf8_def decode_vals_append)

lemma decode_utf8_append_Inr:
  "decode_utf8 a = Inr s \<Longrightarrow> decode_utf8 b = Inr t \<Longrightarrow> decode_utf8 (a @ b) = Inr (s @ t)"
  by (simp add: decode_utf8_append)

lemma decode_utf8_concat:
  "list_all2 (\<lambda>c s. decode_utf8 c = Inr s) chunks texts \<Longrightarrow>
   decode_utf8 (concat chunks) = Inr (concat texts)"
  by (induction rule: list_all2_induct) (simp_all add: decode_utf8_append_Inr)

section \<open>ASCII decodes to itself\<close>

lemma decode_vals_ascii:
  "\<forall>b \<in> set bs. b < 128 \<Longrightarrow> decode_vals bs = Inr bs"
  by (induction bs) (simp_all add: decode_vals_Cons)

lemma decode_utf8_ascii:
  "\<forall>b \<in> set data. b < 128 \<Longrightarrow> decode_utf8 data = Inr (map unat data)"
  by (simp add: decode_utf8_def decode_vals_ascii word_less_nat_alt)

lemma unat_of_nat_byte: "b < 256 \<Longrightarrow> unat (of_nat b :: byte) = b"
  by (simp add: unat_of_nat)

lemma unat_of_char [simp]: "unat (of_char c :: byte) = of_char c"
proof -
  have "(of_char c :: byte) = of_nat (of_char c)" by (simp only: of_nat_of_char)
  moreover have "(of_char c :: nat) < 256" by simp
  ultimately show ?thesis by (simp only: unat_of_nat_byte)
qed

lemma decode_utf8_ascii_bytes:
  "\<forall>c \<in> set s. (of_char c :: nat) < 128 \<Longrightarrow> decode_utf8 (ascii_bytes s) = Inr (ascii s)"
  by (simp add: decode_utf8_def ascii_bytes_def ascii_def decode_vals_ascii comp_def)

section \<open>Arithmetic of the bit fields\<close>





lemma mod_64_le [simp]: "(n::nat) mod 64 \<le> 63"
  using mod_less_divisor [of 64 n] by linarith



section \<open>Round trip with the encoder\<close>

lemma utf8_first_enc1: "c < 128 \<Longrightarrow> utf8_first (c # bs) = Some (c, 1)"
  by simp





lemma encode_cp_nonempty: "encode_cp c \<noteq> []"
  by (simp add: encode_cp_def)





section \<open>The round trip and the range of the decoder\<close>

















end
