(* ===== verification/Magic_Text_Protocol.thy ===== *)
theory Magic_Text_Protocol
  imports Py_Runtime Utf8
begin

text \<open>
  The class \<^verbatim>\<open>_MagicTextProtocol\<close> of \<^verbatim>\<open>src/integration/util.py\<close> (lines 14-61):
  the process protocol that collects the child's standard output, fires the
  \<^verbatim>\<open>magic_seen\<close> \<^verbatim>\<open>Deferred\<close> when the magic text appears in it, and fires \<^verbatim>\<open>exited\<close>
  when the process ends. The object's attributes are the record \<open>MagicTextProtocol\<close>;
  its two \<^verbatim>\<open>Deferred\<close>s live in the world's store and the attributes hold references,
  \<^verbatim>\<open>magic_seen\<close> an optional one (the code sets it to \<^verbatim>\<open>None\<close> when it fires the
  \<^verbatim>\<open>Deferred\<close>). Each method is one definition that takes the object and the world and
  returns both, or the exception the method raises.

  The lemmas show: the invariant \<open>protocol_inv\<close> that ties the \<^verbatim>\<open>magic_seen\<close> attribute
  to the state of the \<^verbatim>\<open>Deferred\<close> and is kept by every method; what each method does
  on each branch; that readiness is decided by the accumulated output and not by how
  the output was cut into chunks, as long as every chunk decodes; that only file
  descriptor 1 takes part; and what \<^verbatim>\<open>processEnded\<close> does to both \<^verbatim>\<open>Deferred\<close>s.
\<close>

section \<open>The object\<close>

record MagicTextProtocol =
  magic_seen :: "ref option"
  exited :: ref
  magic_text :: str
  output_buf :: str
  print_logs :: bool

type_synonym 'a pstate = "MagicTextProtocol \<times> 'a world_scheme"

text \<open>
  The reason the reactor passes to \<^verbatim>\<open>processEnded\<close>: the process is done (exit code
  0) or was terminated (an exit code or a signal).
\<close>

datatype reason = ProcessDone | ProcessTerminated "nat option" "nat option"

section \<open>The methods\<close>

text \<open>\<^verbatim>\<open>__init__\<close>: two fresh \<^verbatim>\<open>Deferred\<close>s, an empty \<^verbatim>\<open>StringIO\<close>.\<close>

definition MagicTextProtocol_init :: "'a world_scheme \<Rightarrow> str \<Rightarrow> bool \<Rightarrow> 'a pstate" where
  "MagicTextProtocol_init w mt pl =
     (let (d1, w1) = new_deferred w;
          (d2, w2) = new_deferred w1
      in (\<lparr>magic_seen = Some d1, exited = d2, magic_text = mt, output_buf = [],
           print_logs = pl\<rparr>, w2))"

text \<open>The exception of \<^verbatim>\<open>processEnded\<close>, \<^verbatim>\<open>Exception("Service failed.")\<close>.\<close>

definition service_failed :: exn where
  "service_failed = Exception (ascii ''Service failed.'')"

text \<open>
  \<^verbatim>\<open>processEnded\<close>: a pending \<^verbatim>\<open>magic_seen\<close> is cleared and fails with
  \<open>service_failed\<close>; then \<^verbatim>\<open>exited\<close> fires with \<^verbatim>\<open>None\<close>. The reason is not used.
\<close>

definition processEnded :: "MagicTextProtocol \<Rightarrow> 'a world_scheme \<Rightarrow> reason \<Rightarrow> 'a pstate result" where
  "processEnded self w reason =
     and_then
       (case magic_seen self of
          Some d \<Rightarrow>
            and_then (errback_at w d service_failed)
              (\<lambda>w1. Inr (self\<lparr>magic_seen := None\<rparr>, w1))
        | None \<Rightarrow> Inr (self, w))
       (\<lambda>(self1, w1).
          and_then (callback_at w1 (exited self1) PyNone) (\<lambda>w2. Inr (self1, w2)))"

text \<open>The line \<^verbatim>\<open>out_received\<close> prints when it sees the magic text.\<close>

definition saw_message :: "str \<Rightarrow> str" where
  "saw_message mt = ascii ''Saw '' @ [39] @ mt @ [39] @ ascii '' in the logs''"

text \<open>
  \<^verbatim>\<open>out_received\<close>: the chunk is decoded (once for the echo when \<^verbatim>\<open>_print_logs\<close> is
  set, once for the buffer), appended to the buffer, and the whole buffer is searched
  for the magic text if \<^verbatim>\<open>magic_seen\<close> is still pending.
\<close>

definition out_received :: "MagicTextProtocol \<Rightarrow> 'a world_scheme \<Rightarrow> bytes \<Rightarrow> 'a pstate result" where
  "out_received self w data =
     and_then
       (if print_logs self
        then and_then (decode_utf8 data) (\<lambda>s. Inr (write_stdout w s))
        else Inr w)
       (\<lambda>w1. and_then (decode_utf8 data)
          (\<lambda>s. let self1 = self\<lparr>output_buf := output_buf self @ s\<rparr> in
             (case magic_seen self1 of
                Some d \<Rightarrow>
                  if contains (magic_text self1) (output_buf self1)
                  then and_then
                         (callback_at (print_stdout w1 (saw_message (magic_text self1)))
                            d PyProtocol)
                         (\<lambda>w2. Inr (self1\<lparr>magic_seen := None\<rparr>, w2))
                  else Inr (self1, w1)
              | None \<Rightarrow> Inr (self1, w1))))"

text \<open>\<^verbatim>\<open>err_received\<close>: the chunk is decoded and echoed, whatever \<^verbatim>\<open>_print_logs\<close> says.\<close>

definition err_received :: "MagicTextProtocol \<Rightarrow> 'a world_scheme \<Rightarrow> bytes \<Rightarrow> 'a pstate result" where
  "err_received self w data =
     and_then (decode_utf8 data) (\<lambda>s. Inr (self, write_stdout w s))"

text \<open>
  The inherited \<^verbatim>\<open>ProcessProtocol.childDataReceived\<close> hands descriptor 1 to
  \<^verbatim>\<open>outReceived\<close> and descriptor 2 to \<^verbatim>\<open>errReceived\<close>, which the class does not
  override (its methods are \<^verbatim>\<open>out_received\<close> and \<^verbatim>\<open>err_received\<close>) and which do
  nothing; data of any other descriptor is dropped.
\<close>

definition ProcessProtocol_childDataReceived ::
  "MagicTextProtocol \<Rightarrow> 'a world_scheme \<Rightarrow> nat \<Rightarrow> bytes \<Rightarrow> 'a pstate result" where
  "ProcessProtocol_childDataReceived self w childFD data = Inr (self, w)"

text \<open>\<^verbatim>\<open>childDataReceived\<close>: the dispatch on the file descriptor.\<close>

definition childDataReceived ::
  "MagicTextProtocol \<Rightarrow> 'a world_scheme \<Rightarrow> nat \<Rightarrow> bytes \<Rightarrow> 'a pstate result" where
  "childDataReceived self w childFD data =
     (if childFD = 1 then out_received self w data
      else if childFD = 2 then err_received self w data
      else ProcessProtocol_childDataReceived self w childFD data)"

section \<open>The reactor's calls\<close>

text \<open>
  What the reactor does with a protocol: it calls \<^verbatim>\<open>childDataReceived\<close> for every chunk
  read from the child and \<^verbatim>\<open>processEnded\<close> when the process is gone. \<open>deliver_all\<close>
  makes the calls of a list in order, up to the first one that raises.
\<close>

datatype event = ChildData nat bytes | ProcessEnded reason

fun deliver :: "'a pstate \<Rightarrow> event \<Rightarrow> 'a pstate result" where
  "deliver (self, w) (ChildData childFD data) = childDataReceived self w childFD data"
| "deliver (self, w) (ProcessEnded reason) = processEnded self w reason"

fun deliver_all :: "'a pstate \<Rightarrow> event list \<Rightarrow> 'a pstate result" where
  "deliver_all st [] = Inr st"
| "deliver_all st (e # es) = and_then (deliver st e) (\<lambda>st'. deliver_all st' es)"

section \<open>The invariant\<close>

text \<open>
  \<open>protocol_inv d self w\<close>, for the reference \<open>d\<close> that \<^verbatim>\<open>__init__\<close> put into
  \<^verbatim>\<open>magic_seen\<close>: both references are valid and distinct, the store is well-formed, the
  attribute \<^verbatim>\<open>magic_seen\<close> is \<open>d\<close> or \<^verbatim>\<open>None\<close> and is \<^verbatim>\<open>None\<close> exactly when \<open>d\<close> has
  fired, \<^verbatim>\<open>exited\<close> has fired only if \<open>d\<close> has, a pending \<open>d\<close> means that the buffer
  does not hold a non-empty magic text, and \<open>d\<close> has succeeded only if the buffer holds
  the magic text.
\<close>

definition protocol_inv :: "ref \<Rightarrow> MagicTextProtocol \<Rightarrow> 'a world_scheme \<Rightarrow> bool" where
  "protocol_inv d self w \<longleftrightarrow>
     valid_ref w d \<and> valid_ref w (exited self) \<and> d \<noteq> exited self \<and> store_wf w \<and>
     (magic_seen self = Some d \<or> magic_seen self = None) \<and>
     (magic_seen self = None \<longleftrightarrow> called (deferred_at w d)) \<and>
     (called (deferred_at w (exited self)) \<longrightarrow> called (deferred_at w d)) \<and>
     (magic_seen self = Some d \<and> magic_text self \<noteq> []
        \<longrightarrow> \<not> contains (magic_text self) (output_buf self)) \<and>
     (is_success (deferred_at w d) \<longrightarrow> contains (magic_text self) (output_buf self))"

lemmas protocol_ops [fow_ops] =
  MagicTextProtocol_init_def processEnded_def out_received_def err_received_def
  ProcessProtocol_childDataReceived_def childDataReceived_def service_failed_def

section \<open>What \<^verbatim>\<open>out_received\<close> does\<close>

lemma out_received_undecodable:
  "decode_utf8 data = Inl e \<Longrightarrow> out_received self w data = Inl UnicodeDecodeError"
  by (auto simp: out_received_def dest: decode_utf8_error)

lemma out_received_raises_iff:
  "raises (out_received self w data) \<longleftrightarrow>
     raises (decode_utf8 data) \<or>
     (\<exists>d. magic_seen self = Some d \<and> called (deferred_at w d) \<and>
          (\<exists>s. decode_utf8 data = Inr s \<and> contains (magic_text self) (output_buf self @ s)))"
  by (cases "decode_utf8 data")
     (auto simp: out_received_def Let_def callback_at_eq split: option.splits)

text \<open>The echo: the decoded chunk goes to standard output when \<^verbatim>\<open>_print_logs\<close> is set.\<close>

definition echo :: "MagicTextProtocol \<Rightarrow> 'a world_scheme \<Rightarrow> str \<Rightarrow> 'a world_scheme" where
  "echo self w s = (if print_logs self then write_stdout w s else w)"

lemma echo_frame [simp, fow_frame]:
  "deferreds (echo self w s) = deferreds w"
  "valid_ref (echo self w s) r = valid_ref w r"
  "deferred_at (echo self w s) r = deferred_at w r"
  "store_wf (echo self w s) = store_wf w"
  by (simp_all add: echo_def)

lemma out_received_fired:
  assumes "decode_utf8 data = Inr s" and "magic_seen self = None"
  shows "out_received self w data = Inr (self\<lparr>output_buf := output_buf self @ s\<rparr>, echo self w s)"
  using assms by (simp add: out_received_def echo_def Let_def)

lemma out_received_no_match:
  assumes "decode_utf8 data = Inr s" and "\<not> contains (magic_text self) (output_buf self @ s)"
  shows "out_received self w data = Inr (self\<lparr>output_buf := output_buf self @ s\<rparr>, echo self w s)"
  using assms by (simp add: out_received_def echo_def Let_def split: option.splits)

lemma out_received_match:
  assumes "decode_utf8 data = Inr s" and "magic_seen self = Some d"
    and "contains (magic_text self) (output_buf self @ s)"
  shows "out_received self w data =
     and_then (callback_at (print_stdout (echo self w s) (saw_message (magic_text self)))
                 d PyProtocol)
       (\<lambda>w2. Inr (self\<lparr>output_buf := output_buf self @ s, magic_seen := None\<rparr>, w2))"
  using assms by (simp add: out_received_def echo_def Let_def)

lemma out_received_output:
  "out_received self w data = Inr (self', w') \<Longrightarrow>
   \<exists>s. decode_utf8 data = Inr s \<and> output_buf self' = output_buf self @ s \<and>
       magic_text self' = magic_text self \<and> exited self' = exited self \<and>
       print_logs self' = print_logs self"
  by (cases "decode_utf8 data")
     (auto simp: out_received_def Let_def and_then_eq_Inr_iff split: option.splits if_splits)

section \<open>What the other streams do\<close>

lemma err_received_decoded:
  "decode_utf8 data = Inr s \<Longrightarrow> err_received self w data = Inr (self, write_stdout w s)"
  by (simp add: err_received_def)

lemma err_received_undecodable:
  "decode_utf8 data = Inl e \<Longrightarrow> err_received self w data = Inl UnicodeDecodeError"
  by (auto simp: err_received_def dest: decode_utf8_error)

lemma childDataReceived_1 [simp]:
  "childDataReceived self w 1 data = out_received self w data"
  by (simp add: childDataReceived_def)

lemma childDataReceived_2 [simp]:
  "childDataReceived self w 2 data = err_received self w data"
  by (simp add: childDataReceived_def)

lemma childDataReceived_Suc_0 [simp]:
  "childDataReceived self w (Suc 0) data = out_received self w data"
  by (simp add: childDataReceived_def)

lemma childDataReceived_other:
  "childFD \<noteq> 1 \<Longrightarrow> childFD \<noteq> 2 \<Longrightarrow> childDataReceived self w childFD data = Inr (self, w)"
  by (simp add: childDataReceived_def ProcessProtocol_childDataReceived_def)

section \<open>The invariant is established and kept\<close>

lemma MagicTextProtocol_init_eq:
  "MagicTextProtocol_init w mt pl =
     (\<lparr>magic_seen = Some (length (deferreds w)), exited = Suc (length (deferreds w)),
       magic_text = mt, output_buf = [], print_logs = pl\<rparr>,
      w\<lparr>deferreds := deferreds w @ [Deferred, Deferred]\<rparr>)"
  by (simp add: MagicTextProtocol_init_def new_deferred_def)

lemma protocol_inv_init:
  assumes "store_wf w" and "MagicTextProtocol_init w mt pl = (self, w')"
  shows "protocol_inv (length (deferreds w)) self w'"
proof -
  from assms(2) have self: "self = \<lparr>magic_seen = Some (length (deferreds w)),
      exited = Suc (length (deferreds w)), magic_text = mt, output_buf = [], print_logs = pl\<rparr>"
    and w': "deferreds w' = deferreds w @ [Deferred, Deferred]"
    by (auto simp: MagicTextProtocol_init_eq)
  from assms(1) w' have "store_wf w'" by (simp add: store_wf_def)
  moreover from w' have "deferred_at w' (length (deferreds w)) = Deferred"
    and "deferred_at w' (Suc (length (deferreds w))) = Deferred"
    by (simp_all add: deferred_at_def nth_append)
  ultimately show ?thesis using w'
    by (simp add: protocol_inv_def self valid_ref_def)
qed

text \<open>
  The protocol of a launcher that has done nothing else yet: its two \<^verbatim>\<open>Deferred\<close>s are
  the objects 0 and 1 of the store, and the invariant holds.
\<close>

lemma fresh_protocol:
  "\<exists>self w. MagicTextProtocol_init empty_world mt pl = (self, w) \<and> protocol_inv 0 self w \<and>
     magic_seen self = Some 0 \<and> exited self = 1 \<and> magic_text self = mt \<and>
     output_buf self = [] \<and> print_logs self = pl \<and> sys_stdout w = []"
  using protocol_inv_init [of empty_world mt pl]
  by (simp add: MagicTextProtocol_init_eq)

lemma protocol_inv_cong_store:
  "deferreds w' = deferreds w \<Longrightarrow> protocol_inv d self w' = protocol_inv d self w"
  by (simp add: protocol_inv_def valid_ref_def deferred_at_def store_wf_def)

lemma protocol_inv_stdout [simp, fow_frame]:
  "protocol_inv d self (echo self0 w s) = protocol_inv d self w"
  "protocol_inv d self (write_stdout w s) = protocol_inv d self w"
  "protocol_inv d self (print_stdout w s) = protocol_inv d self w"
  by (rule protocol_inv_cong_store, simp)+

lemma protocol_inv_pending:
  "protocol_inv d self w \<Longrightarrow> magic_seen self = Some d' \<Longrightarrow>
   d' = d \<and> \<not> called (deferred_at w d) \<and> \<not> called (deferred_at w (exited self))"
  unfolding protocol_inv_def by fastforce

lemma protocol_inv_attr:
  "protocol_inv d self w \<Longrightarrow> magic_seen self = Some d \<or> magic_seen self = None"
  by (auto simp: protocol_inv_def)

lemma protocol_inv_refs:
  "protocol_inv d self w \<Longrightarrow>
   valid_ref w d \<and> valid_ref w (exited self) \<and> d \<noteq> exited self \<and> store_wf w"
  by (simp add: protocol_inv_def)

lemma protocol_inv_exited_settled:
  "protocol_inv d self w \<Longrightarrow> called (deferred_at w (exited self)) \<Longrightarrow>
   called (deferred_at w d)"
  by (simp add: protocol_inv_def)

lemma protocol_inv_settled:
  "protocol_inv d self w \<Longrightarrow> magic_seen self = None \<longleftrightarrow> called (deferred_at w d)"
  by (simp add: protocol_inv_def)

lemma protocol_inv_unfired:
  assumes "protocol_inv d self w" and "\<not> called (deferred_at w d)"
  shows "\<not> is_success (deferred_at w d)" and "\<not> is_failure (deferred_at w d)"
  using assms unfired_no_outcome [of "deferred_at w d"]
  by (simp_all add: protocol_inv_def store_wf_at)

lemma protocol_inv_buffer_grows:
  assumes "protocol_inv d self w" and "magic_seen self = None"
  shows "protocol_inv d (self\<lparr>output_buf := output_buf self @ s\<rparr>) w"
  using assms by (simp add: protocol_inv_def contains_append_left)

lemma protocol_inv_no_match:
  assumes "protocol_inv d self w" and "\<not> contains (magic_text self) (output_buf self @ s)"
  shows "protocol_inv d (self\<lparr>output_buf := output_buf self @ s\<rparr>) w"
proof -
  from assms(2) have "\<not> contains (magic_text self) (output_buf self)"
    by (auto dest: contains_append_left)
  with assms show ?thesis by (auto simp: protocol_inv_def)
qed

lemma protocol_inv_match:
  assumes "protocol_inv d self w" and "magic_seen self = Some d"
    and "contains (magic_text self) (output_buf self @ s)"
    and "deferreds w0 = deferreds w"
  shows "protocol_inv d (self\<lparr>output_buf := output_buf self @ s, magic_seen := None\<rparr>)
           (set_deferred w0 d (fired (deferred_at w d) (Success PyProtocol)))"
proof -
  from assms(1) protocol_inv_cong_store [OF assms(4), of d self]
  have inv0: "protocol_inv d self w0" by simp
  then have "valid_ref w0 d" "store_wf w0" "d \<noteq> exited self" "valid_ref w0 (exited self)"
    by (simp_all add: protocol_inv_def)
  with assms(3) show ?thesis
    by (simp add: protocol_inv_def deferred_at_set_deferred store_wf_set)
qed

lemma out_received_inv:
  assumes inv: "protocol_inv d self w" and run: "out_received self w data = Inr (self', w')"
  shows "protocol_inv d self' w'"
proof -
  from run obtain s where s: "decode_utf8 data = Inr s"
    by (cases "decode_utf8 data") (simp_all add: out_received_undecodable)
  show ?thesis
  proof (cases "magic_seen self")
    case None
    with s run have "self' = self\<lparr>output_buf := output_buf self @ s\<rparr>" "w' = echo self w s"
      by (simp_all add: out_received_fired)
    with inv None show ?thesis
      by (simp add: protocol_inv_buffer_grows)
  next
    case (Some d')
    with inv have d': "d' = d" and unfired: "\<not> called (deferred_at w d)"
      by (simp_all add: protocol_inv_pending)
    show ?thesis
    proof (cases "contains (magic_text self) (output_buf self @ s)")
      case False
      with s run have "self' = self\<lparr>output_buf := output_buf self @ s\<rparr>" "w' = echo self w s"
        by (simp_all add: out_received_no_match)
      with inv False show ?thesis
        by (simp add: protocol_inv_no_match)
    next
      case True
      let ?w0 = "print_stdout (echo self w s) (saw_message (magic_text self))"
      from unfired have "callback_at ?w0 d PyProtocol =
          Inr (set_deferred ?w0 d (fired (deferred_at ?w0 d) (Success PyProtocol)))"
        by (simp add: callback_at_eq)
      with out_received_match [OF s Some [unfolded d'] True, of w] run
      have "self' = self\<lparr>output_buf := output_buf self @ s, magic_seen := None\<rparr>"
        and "w' = set_deferred ?w0 d (fired (deferred_at ?w0 d) (Success PyProtocol))"
        by simp_all
      moreover have "deferreds ?w0 = deferreds w" by simp
      ultimately show ?thesis
        using inv Some d' True by (simp add: protocol_inv_match)
    qed
  qed
qed

lemma err_received_inv:
  assumes "protocol_inv d self w" and "err_received self w data = Inr (self', w')"
  shows "protocol_inv d self' w'"
  using assms
  by (cases "decode_utf8 data") (auto simp: err_received_def)

lemma childDataReceived_inv:
  assumes "protocol_inv d self w" and "childDataReceived self w childFD data = Inr (self', w')"
  shows "protocol_inv d self' w'"
  using assms
  by (auto simp: childDataReceived_def ProcessProtocol_childDataReceived_def
           intro: out_received_inv err_received_inv split: if_splits)

section \<open>What \<^verbatim>\<open>processEnded\<close> does\<close>

lemma processEnded_pending:
  assumes "protocol_inv d self w" and "magic_seen self = Some d"
  shows "processEnded self w reason =
     Inr (self\<lparr>magic_seen := None\<rparr>,
          set_deferred (set_deferred w d (fired (deferred_at w d) (Failure service_failed)))
            (exited self) (fired (deferred_at w (exited self)) (Success PyNone)))"
proof -
  from assms have "\<not> called (deferred_at w d)" "\<not> called (deferred_at w (exited self))"
    and "d \<noteq> exited self"
    by (auto dest: protocol_inv_pending protocol_inv_refs)
  with assms(2) show ?thesis
    by (simp add: processEnded_def errback_at_eq callback_at_eq)
qed

lemma processEnded_settled:
  assumes "magic_seen self = None" and "\<not> called (deferred_at w (exited self))"
  shows "processEnded self w reason =
     Inr (self, set_deferred w (exited self)
                  (fired (deferred_at w (exited self)) (Success PyNone)))"
  using assms by (simp add: processEnded_def callback_at_eq)

lemma processEnded_again:
  assumes "protocol_inv d self w" and "called (deferred_at w (exited self))"
  shows "processEnded self w reason = Inl AlreadyCalledError"
proof -
  from assms have "magic_seen self = None"
    by (auto simp: protocol_inv_def split: if_splits)
  with assms(2) show ?thesis
    by (simp add: processEnded_def callback_at_eq)
qed

lemma processEnded_inv:
  assumes inv: "protocol_inv d self w" and run: "processEnded self w reason = Inr (self', w')"
  shows "protocol_inv d self' w'"
proof -
  from inv have refs: "valid_ref w d" "valid_ref w (exited self)" "d \<noteq> exited self" "store_wf w"
    by (simp_all add: protocol_inv_def)
  show ?thesis
  proof (cases "magic_seen self")
    case None
    from inv run have unfired: "\<not> called (deferred_at w (exited self))"
      by (auto simp: processEnded_again)
    from processEnded_settled [OF None unfired, of reason] run
    have "self' = self"
      and "w' = set_deferred w (exited self)
                 (fired (deferred_at w (exited self)) (Success PyNone))"
      by simp_all
    with inv None refs show ?thesis
      by (simp add: protocol_inv_def deferred_at_set_deferred store_wf_set)
  next
    case (Some d')
    with inv have d': "d' = d" by (simp add: protocol_inv_pending)
    from processEnded_pending [OF inv Some [unfolded d'], of reason] run
    have "self' = self\<lparr>magic_seen := None\<rparr>"
      and "w' = set_deferred
                 (set_deferred w d (fired (deferred_at w d) (Failure service_failed)))
                 (exited self) (fired (deferred_at w (exited self)) (Success PyNone))"
      by simp_all
    with refs show ?thesis
      by (simp add: protocol_inv_def deferred_at_set_deferred store_wf_set)
  qed
qed

lemma deliver_inv:
  assumes "protocol_inv d self w" and "deliver (self, w) e = Inr (self', w')"
  shows "protocol_inv d self' w'"
  using assms by (cases e) (auto intro: childDataReceived_inv processEnded_inv)

lemma deliver_all_inv:
  assumes "protocol_inv d self w" and "deliver_all (self, w) es = Inr (self', w')"
  shows "protocol_inv d self' w'"
  using assms
proof (induction es arbitrary: self w)
  case Nil
  then show ?case by simp
next
  case (Cons e es)
  from Cons.prems(2) obtain self1 w1 where first: "deliver (self, w) e = Inr (self1, w1)"
    and rest: "deliver_all (self1, w1) es = Inr (self', w')"
    by (auto simp: and_then_eq_Inr_iff)
  from Cons.prems(1) first have "protocol_inv d self1 w1" by (rule deliver_inv)
  from this rest show ?case by (rule Cons.IH)
qed

section \<open>What the methods leave alone\<close>

text \<open>
  The references a protocol object holds. A method touches no other \<^verbatim>\<open>Deferred\<close>, and
  it keeps the reference \<^verbatim>\<open>exited\<close>, the magic text and the echo policy.
\<close>

definition protocol_refs :: "MagicTextProtocol \<Rightarrow> ref set" where
  "protocol_refs self = set_option (magic_seen self) \<union> {exited self}"

lemma protocol_inv_protocol_refs:
  "protocol_inv d self w \<Longrightarrow> protocol_refs self \<subseteq> {d, exited self}"
  by (auto simp: protocol_refs_def dest: protocol_inv_pending)

lemma touches_only_from_echo [simp]:
  "touches_only (echo self w s) R w' = touches_only w R w'"
  by (simp add: echo_def)

lemma out_received_touches:
  assumes "out_received self w data = Inr (self', w')"
  shows "touches_only w (set_option (magic_seen self)) w'"
proof -
  from assms obtain s where s: "decode_utf8 data = Inr s"
    by (cases "decode_utf8 data") (simp_all add: out_received_undecodable)
  show ?thesis
  proof (cases "magic_seen self")
    case None
    with s assms show ?thesis by (auto simp: out_received_fired echo_def)
  next
    case (Some d)
    show ?thesis
    proof (cases "contains (magic_text self) (output_buf self @ s)")
      case False
      with s assms show ?thesis by (auto simp: out_received_no_match echo_def)
    next
      case True
      with s Some assms have "touches_only w {d} w'"
        by (auto simp: out_received_match and_then_eq_Inr_iff dest!: callback_at_touches)
      with Some show ?thesis by simp
    qed
  qed
qed

lemma err_received_touches:
  "err_received self w data = Inr (self', w') \<Longrightarrow> touches_only w {} w'"
  by (cases "decode_utf8 data") (auto simp: err_received_def)

lemma childDataReceived_attrs:
  "childDataReceived self w childFD data = Inr (self', w') \<Longrightarrow>
   exited self' = exited self \<and> magic_text self' = magic_text self \<and>
   print_logs self' = print_logs self"
  by (auto simp: childDataReceived_def ProcessProtocol_childDataReceived_def err_received_def
                 and_then_eq_Inr_iff
           dest: out_received_output split: if_splits)

lemma processEnded_attrs:
  "processEnded self w reason = Inr (self', w') \<Longrightarrow>
   exited self' = exited self \<and> magic_text self' = magic_text self \<and>
   print_logs self' = print_logs self \<and> output_buf self' = output_buf self"
  by (auto simp: processEnded_def and_then_eq_Inr_iff split: option.splits)

text \<open>Data touches at most the readiness \<^verbatim>\<open>Deferred\<close>, and only while it is pending.\<close>

lemma childDataReceived_touches:
  "childDataReceived self w childFD data = Inr (self', w') \<Longrightarrow>
   touches_only w (set_option (magic_seen self)) w'"
  by (auto simp: childDataReceived_def ProcessProtocol_childDataReceived_def
           intro: out_received_touches touches_only_mono [OF err_received_touches]
           split: if_splits)

lemma childDataReceived_exited:
  assumes "protocol_inv d self w" and "childDataReceived self w childFD data = Inr (self', w')"
  shows "deferred_at w' (exited self') = deferred_at w (exited self)"
proof -
  from assms(1) have "exited self \<notin> set_option (magic_seen self)"
    by (auto dest: protocol_inv_pending protocol_inv_refs)
  with childDataReceived_touches [OF assms(2)] childDataReceived_attrs [OF assms(2)]
  show ?thesis by (simp add: touches_only_at)
qed

lemma processEnded_exited:
  assumes "protocol_inv d self w" and "processEnded self w reason = Inr (self', w')"
  shows "\<not> called (deferred_at w (exited self))"
    and "deferred_at w' (exited self') = fired (deferred_at w (exited self)) (Success PyNone)"
proof -
  from assms(1) have refs: "valid_ref w (exited self)" "valid_ref w d" "d \<noteq> exited self"
    by (simp_all add: protocol_inv_refs)
  from assms show unfired: "\<not> called (deferred_at w (exited self))"
    by (auto simp: processEnded_again)
  show "deferred_at w' (exited self') = fired (deferred_at w (exited self)) (Success PyNone)"
  proof (cases "magic_seen self")
    case None
    with unfired assms(2) refs show ?thesis by (auto simp: processEnded_settled)
  next
    case (Some d')
    with assms(1) have "d' = d" by (simp add: protocol_inv_pending)
    with Some assms refs show ?thesis
      by (auto simp: processEnded_pending deferred_at_set_deferred)
  qed
qed

lemma processEnded_returns_iff:
  assumes "protocol_inv d self w"
  shows "(\<exists>st. processEnded self w reason = Inr st) \<longleftrightarrow>
         \<not> called (deferred_at w (exited self))"
proof (cases "called (deferred_at w (exited self))")
  case True
  with assms show ?thesis by (simp add: processEnded_again)
next
  case False
  show ?thesis
  proof (cases "magic_seen self")
    case None
    with False show ?thesis by (simp add: processEnded_settled)
  next
    case (Some d')
    with assms have "d' = d" by (simp add: protocol_inv_pending)
    with Some assms False show ?thesis by (simp add: processEnded_pending)
  qed
qed

lemma processEnded_fires_exited:
  assumes "protocol_inv d self w" and "processEnded self w reason = Inr (self', w')"
  shows "called (deferred_at w' (exited self'))"
  using processEnded_exited(2) [OF assms] by simp

lemma processEnded_touches:
  "processEnded self w reason = Inr (self', w') \<Longrightarrow> touches_only w (protocol_refs self) w'"
  by (auto simp: processEnded_def and_then_eq_Inr_iff protocol_refs_def
           dest!: callback_at_touches errback_at_touches
           intro: touches_only_mono dest: touches_only_trans split: option.splits)

lemma deliver_touches:
  assumes "deliver (self, w) e = Inr (self', w')"
  shows "touches_only w (protocol_refs self) w'"
proof (cases e)
  case (ChildData childFD data)
  with assms have "touches_only w (set_option (magic_seen self)) w'"
    by (auto intro: childDataReceived_touches)
  then show ?thesis by (rule touches_only_mono) (auto simp: protocol_refs_def)
next
  case (ProcessEnded reason)
  with assms show ?thesis by (auto intro: processEnded_touches)
qed

text \<open>
  The invariant of a protocol reads the store at its two references only, so it is not
  disturbed by calls on other objects.
\<close>

lemma protocol_inv_agree:
  assumes "protocol_inv d self w" and "length (deferreds w) \<le> length (deferreds w')"
    and "called (deferred_at w' d) = called (deferred_at w d)"
    and "is_success (deferred_at w' d) = is_success (deferred_at w d)"
    and "called (deferred_at w' (exited self)) = called (deferred_at w (exited self))"
    and "store_wf w'"
  shows "protocol_inv d self w'"
  using assms by (auto simp: protocol_inv_def valid_ref_def)

lemma protocol_inv_frame:
  assumes "protocol_inv d self w" and "touches_only w R w'"
    and "d \<notin> R" and "exited self \<notin> R" and "store_wf w'"
  shows "protocol_inv d self w'"
  using assms
  by (auto simp: protocol_inv_def touches_only_at touches_only_valid_ref)

section \<open>What is printed\<close>

lemma out_received_stdout:
  assumes "protocol_inv d self w" and "decode_utf8 data = Inr s"
    and "out_received self w data = Inr (self', w')"
  shows "sys_stdout w' = sys_stdout w @ (if print_logs self then s else []) @
           (if magic_seen self = Some d \<and> contains (magic_text self) (output_buf self @ s)
            then saw_message (magic_text self) @ [10] else [])"
proof (cases "magic_seen self = Some d \<and> contains (magic_text self) (output_buf self @ s)")
  case True
  with assms(2,3) show ?thesis
    by (auto simp: out_received_match and_then_eq_Inr_iff callback_at_Inr_iff echo_def)
next
  case False
  show ?thesis
  proof (cases "magic_seen self")
    case None
    with assms(2,3) False show ?thesis by (auto simp: out_received_fired echo_def)
  next
    case (Some d')
    with assms(1) have "d' = d" by (simp add: protocol_inv_pending)
    with Some False assms(2,3) show ?thesis by (auto simp: out_received_no_match echo_def)
  qed
qed

lemma processEnded_stdout:
  "processEnded self w reason = Inr (self', w') \<Longrightarrow> sys_stdout w' = sys_stdout w"
  by (auto simp: processEnded_def and_then_eq_Inr_iff callback_at_Inr_iff errback_at_Inr_iff
           split: option.splits)

text \<open>The methods only ever append to standard output.\<close>

lemma deliver_stdout_prefix:
  assumes "protocol_inv d self w" and "deliver (self, w) e = Inr (self', w')"
  shows "prefix (sys_stdout w) (sys_stdout w')"
proof (cases e)
  case (ChildData childFD data)
  show ?thesis
  proof (cases "decode_utf8 data")
    case (Inl x)
    with ChildData assms(2) show ?thesis
      by (auto simp: childDataReceived_def ProcessProtocol_childDataReceived_def
                     out_received_undecodable err_received_undecodable split: if_splits)
  next
    case (Inr s)
    with ChildData assms out_received_stdout [OF assms(1) Inr] show ?thesis
      by (auto simp: childDataReceived_def ProcessProtocol_childDataReceived_def
                     err_received_def split: if_splits)
  qed
next
  case (ProcessEnded reason)
  with assms(2) show ?thesis by (auto dest: processEnded_stdout)
qed

lemma childDataReceived_stdout_prefix:
  "protocol_inv d self w \<Longrightarrow> childDataReceived self w childFD data = Inr (self', w') \<Longrightarrow>
   prefix (sys_stdout w) (sys_stdout w')"
  using deliver_stdout_prefix [of d self w "ChildData childFD data" self' w'] by simp

section \<open>Feeding standard output in chunks\<close>

text \<open>
  \<open>marker_arrives self texts\<close>: at least one chunk of standard output was received and
  the buffer of \<open>self\<close>, extended by the decoded chunks \<open>texts\<close>, holds the magic text.
\<close>

definition marker_arrives :: "MagicTextProtocol \<Rightarrow> str list \<Rightarrow> bool" where
  "marker_arrives self texts \<longleftrightarrow>
     texts \<noteq> [] \<and> contains (magic_text self) (output_buf self @ concat texts)"

text \<open>
  \<open>fed d self w texts self' w'\<close> describes the state \<open>(self', w')\<close> that receiving the
  decoded chunks \<open>texts\<close> on standard output leads to from \<open>(self, w)\<close>: the buffer has
  grown by all of them, and if readiness was pending and the marker arrived, the
  attribute is cleared and the \<^verbatim>\<open>Deferred\<close> \<open>d\<close> is fired with the protocol object;
  no other \<^verbatim>\<open>Deferred\<close> changes.
\<close>

definition fed ::
  "ref \<Rightarrow> MagicTextProtocol \<Rightarrow> 'a world_scheme \<Rightarrow> str list \<Rightarrow>
   MagicTextProtocol \<Rightarrow> 'a world_scheme \<Rightarrow> bool" where
  "fed d self w texts self' w' \<longleftrightarrow>
     (if magic_seen self = Some d \<and> marker_arrives self texts
      then self' = self\<lparr>output_buf := output_buf self @ concat texts, magic_seen := None\<rparr> \<and>
           deferreds w' = (deferreds w)[d := fired (deferred_at w d) (Success PyProtocol)]
      else self' = self\<lparr>output_buf := output_buf self @ concat texts\<rparr> \<and>
           deferreds w' = deferreds w)"

lemma fed_Nil [simp]: "fed d self w [] self w"
  by (simp add: fed_def marker_arrives_def)

lemma out_received_fed:
  assumes inv: "protocol_inv d self w" and dec: "decode_utf8 data = Inr s"
  shows "\<exists>self' w'. out_received self w data = Inr (self', w') \<and> fed d self w [s] self' w'"
proof (cases "magic_seen self = Some d \<and> contains (magic_text self) (output_buf self @ s)")
  case True
  let ?w0 = "print_stdout (echo self w s) (saw_message (magic_text self))"
  from inv True have "\<not> called (deferred_at w d)" by (simp add: protocol_inv_pending)
  then have "callback_at ?w0 d PyProtocol =
      Inr (set_deferred ?w0 d (fired (deferred_at w d) (Success PyProtocol)))"
    by (simp add: callback_at_eq)
  with dec True show ?thesis
    by (simp add: out_received_match fed_def marker_arrives_def set_deferred_def)
next
  case False
  from inv have "magic_seen self = Some d \<or> magic_seen self = None"
    by (rule protocol_inv_attr)
  with False dec
  have "out_received self w data = Inr (self\<lparr>output_buf := output_buf self @ s\<rparr>, echo self w s)"
    by (auto simp: out_received_fired out_received_no_match)
  with False show ?thesis
    by (auto simp: fed_def marker_arrives_def)
qed

lemma fed_Cons:
  assumes first: "fed d self w [s] self1 w1" and rest: "fed d self1 w1 ss self' w'"
  shows "fed d self w (s # ss) self' w'"
proof (cases "magic_seen self = Some d \<and> contains (magic_text self) (output_buf self @ s)")
  case True
  then have "contains (magic_text self) ((output_buf self @ s) @ concat ss)"
    by (blast intro: contains_append_left)
  with True first rest show ?thesis
    by (simp add: fed_def marker_arrives_def)
next
  case False
  with first have self1: "self1 = self\<lparr>output_buf := output_buf self @ s\<rparr>"
    and w1: "deferreds w1 = deferreds w"
    by (auto simp: fed_def marker_arrives_def)
  from w1 have at: "deferred_at w1 d = deferred_at w d" by (simp add: deferred_at_def)
  show ?thesis
  proof (cases ss)
    case Nil
    with rest self1 w1 False show ?thesis
      by (auto simp: fed_def marker_arrives_def)
  next
    case Cons
    with rest self1 w1 at show ?thesis
      by (auto simp: fed_def marker_arrives_def)
  qed
qed

lemma fed_cong_store:
  "deferreds w0 = deferreds w \<Longrightarrow> deferreds w1 = deferreds w' \<Longrightarrow>
   fed d self w0 texts self' w1 = fed d self w texts self' w'"
  by (simp add: fed_def deferred_at_def)

lemma feed_stdout:
  assumes "protocol_inv d self w"
    and "list_all2 (\<lambda>c s. decode_utf8 c = Inr s) chunks texts"
  shows "\<exists>self' w'. deliver_all (self, w) (map (ChildData 1) chunks) = Inr (self', w') \<and>
           fed d self w texts self' w' \<and> protocol_inv d self' w'"
  using assms(2,1)
proof (induction arbitrary: self w rule: list_all2_induct)
  case Nil
  then show ?case by simp
next
  case (Cons c chunks s texts)
  from out_received_fed [OF Cons.prems Cons.hyps(1)]
  obtain self1 w1 where step: "out_received self w c = Inr (self1, w1)"
    and fed1: "fed d self w [s] self1 w1"
    by blast
  from Cons.prems step have "protocol_inv d self1 w1" by (rule out_received_inv)
  from Cons.IH [OF this] obtain self' w'
    where run: "deliver_all (self1, w1) (map (ChildData 1) chunks) = Inr (self', w')"
      and fed': "fed d self1 w1 texts self' w'" and inv': "protocol_inv d self' w'"
    by blast
  from fed1 fed' have "fed d self w (s # texts) self' w'" by (rule fed_Cons)
  with step run inv' show ?case by simp
qed

section \<open>Readiness\<close>

lemma fed_outcome:
  assumes "fed d self w texts self' w'" and "protocol_inv d self w" and "magic_seen self = Some d"
  shows "called (deferred_at w' d) \<longleftrightarrow> marker_arrives self texts"
    and "is_success (deferred_at w' d) \<longleftrightarrow> marker_arrives self texts"
    and "magic_seen self' = None \<longleftrightarrow> marker_arrives self texts"
    and "output_buf self' = output_buf self @ concat texts"
proof -
  from assms(2,3) have unfired: "\<not> called (deferred_at w d)" and valid: "valid_ref w d"
    by (simp_all add: protocol_inv_pending protocol_inv_refs)
  with assms(2) have none: "\<not> is_success (deferred_at w d)"
    by (simp add: protocol_inv_unfired)
  from valid have upd: "\<And>x. (deferreds w)[d := x] ! d = x"
    by (simp add: valid_ref_def)
  from assms(1,3) unfired none upd
  show "called (deferred_at w' d) \<longleftrightarrow> marker_arrives self texts"
    and "is_success (deferred_at w' d) \<longleftrightarrow> marker_arrives self texts"
    and "magic_seen self' = None \<longleftrightarrow> marker_arrives self texts"
    and "output_buf self' = output_buf self @ concat texts"
    by (auto simp: fed_def deferred_at_def split: if_splits)
qed

text \<open>The state right after the chunk that completes the magic text.\<close>

lemma out_received_ready:
  assumes "protocol_inv d self w" and "magic_seen self = Some d"
    and "decode_utf8 data = Inr s" and "contains (magic_text self) (output_buf self @ s)"
  shows "\<exists>self' w'. out_received self w data = Inr (self', w') \<and> protocol_inv d self' w' \<and>
           magic_seen self' = None \<and> exited self' = exited self \<and>
           is_success (deferred_at w' d) \<and> \<not> called (deferred_at w' (exited self'))"
proof -
  from out_received_fed [OF assms(1,3)] obtain self' w'
    where run: "out_received self w data = Inr (self', w')" and fed: "fed d self w [s] self' w'"
    by blast
  from assms(1,2) have "\<not> called (deferred_at w (exited self))" "d \<noteq> exited self"
    by (simp_all add: protocol_inv_pending protocol_inv_refs)
  with fed assms(2,4) have "magic_seen self' = None" "exited self' = exited self"
    "\<not> called (deferred_at w' (exited self'))"
    by (simp_all add: fed_def marker_arrives_def deferred_at_def)
  moreover from fed_outcome(2) [OF fed assms(1,2)] assms(4) have "is_success (deferred_at w' d)"
    by (simp add: marker_arrives_def)
  moreover from assms(1) run have "protocol_inv d self' w'" by (rule out_received_inv)
  ultimately show ?thesis using run by simp
qed

text \<open>
  What a call can do to the readiness \<^verbatim>\<open>Deferred\<close>: data leaves it alone or fires it
  with the protocol object, the end of the process leaves it alone or fails it.
\<close>

lemma childDataReceived_readiness:
  assumes "protocol_inv d self w" and "childDataReceived self w childFD data = Inr (self', w')"
  shows "deferred_at w' d = deferred_at w d \<or>
         \<not> called (deferred_at w d) \<and> childFD = 1 \<and>
         deferred_at w' d = fired (deferred_at w d) (Success PyProtocol)"
proof (cases "childFD = 1")
  case True
  with assms(2) obtain s where s: "decode_utf8 data = Inr s"
    by (cases "decode_utf8 data") (simp_all add: out_received_undecodable)
  from out_received_fed [OF assms(1) s] assms(2) True have "fed d self w [s] self' w'"
    by auto
  moreover from assms(1) have "valid_ref w d" by (simp add: protocol_inv_refs)
  ultimately show ?thesis using True assms(1)
    by (auto simp: fed_def deferred_at_def valid_ref_def dest: protocol_inv_pending
             split: if_splits)
next
  case False
  with assms(2) have "deferreds w' = deferreds w"
    by (cases "decode_utf8 data")
       (auto simp: childDataReceived_def ProcessProtocol_childDataReceived_def err_received_def
             split: if_splits)
  then show ?thesis by (simp add: deferred_at_def)
qed

lemma processEnded_readiness:
  assumes "protocol_inv d self w" and "processEnded self w reason = Inr (self', w')"
  shows "deferred_at w' d = deferred_at w d \<or>
         \<not> called (deferred_at w d) \<and>
         deferred_at w' d = fired (deferred_at w d) (Failure service_failed)"
proof -
  from assms(1) have refs: "valid_ref w (exited self)" "valid_ref w d" "d \<noteq> exited self"
    by (simp_all add: protocol_inv_refs)
  show ?thesis
  proof (cases "magic_seen self")
    case None
    with assms have "\<not> called (deferred_at w (exited self))"
      by (auto simp: processEnded_again)
    with None assms(2) refs show ?thesis by (auto simp: processEnded_settled)
  next
    case (Some d')
    with assms(1) have "d' = d" "\<not> called (deferred_at w d)"
      by (simp_all add: protocol_inv_pending)
    with Some assms refs show ?thesis
      by (auto simp: processEnded_pending deferred_at_set_deferred)
  qed
qed

text \<open>
  C1: Readiness is decided by the accumulated standard output. From a state in which
  readiness is pending, after the reactor has delivered any sequence of chunks on file
  descriptor 1, each of which decodes as UTF-8, no call has raised, the buffer holds
  the old buffer followed by all the decoded chunks, and the \<^verbatim>\<open>magic_seen\<close>
  \<^verbatim>\<open>Deferred\<close> has fired, with a success, exactly if at least one chunk was delivered
  and the magic text occurs in that buffer; the attribute is \<^verbatim>\<open>None\<close> in exactly that
  case.
\<close>

theorem readiness_by_accumulated_output:
  assumes "protocol_inv d self w" and "magic_seen self = Some d"
    and "list_all2 (\<lambda>c s. decode_utf8 c = Inr s) chunks texts"
  shows "\<exists>self' w'.
           deliver_all (self, w) (map (ChildData 1) chunks) = Inr (self', w') \<and>
           output_buf self' = output_buf self @ concat texts \<and>
           (called (deferred_at w' d) \<longleftrightarrow> marker_arrives self texts) \<and>
           (is_success (deferred_at w' d) \<longleftrightarrow> marker_arrives self texts) \<and>
           (magic_seen self' = None \<longleftrightarrow> marker_arrives self texts)"
proof -
  from feed_stdout [OF assms(1,3)] obtain self' w'
    where run: "deliver_all (self, w) (map (ChildData 1) chunks) = Inr (self', w')"
      and fed: "fed d self w texts self' w'"
    by blast
  from fed_outcome [OF fed assms(1,2)] run show ?thesis
    by (intro exI [of _ self'] exI [of _ w']) simp
qed

theorem readiness_by_accumulated_output_witness:
  "\<exists>self w self' w'.
     MagicTextProtocol_init empty_world (ascii ''Starting reactor...'') False = (self, w) \<and>
     deliver_all (self, w)
       (map (ChildData 1) [ascii_bytes ''Star'', ascii_bytes ''ting reactor...'']) =
       Inr (self', w') \<and>
     output_buf self' = ascii ''Starting reactor...'' \<and>
     is_success (deferred_at w' 0) \<and> magic_seen self' = None"
proof -
  let ?texts = "[ascii ''Star'', ascii ''ting reactor...'']"
  from fresh_protocol [of "ascii ''Starting reactor...''" False] obtain self w
    where init: "MagicTextProtocol_init empty_world (ascii ''Starting reactor...'') False = (self, w)"
      and inv: "protocol_inv 0 self w" and pending: "magic_seen self = Some 0"
      and attrs: "magic_text self = ascii ''Starting reactor...''" "output_buf self = []"
    by blast
  have dec: "list_all2 (\<lambda>c s. decode_utf8 c = Inr s)
      [ascii_bytes ''Star'', ascii_bytes ''ting reactor...''] ?texts"
    by (simp add: decode_utf8_ascii_bytes)
  from attrs have "marker_arrives self ?texts"
    by (simp add: marker_arrives_def ascii_append [symmetric])
  with readiness_by_accumulated_output [OF inv pending dec] init attrs show ?thesis
    by (auto simp: ascii_append [symmetric])
qed

text \<open>
  C18: Readiness does not depend on how the child's output was cut into chunks. Two
  non-empty sequences of decodable chunks that carry the same bytes lead from the same
  state to the same protocol object and the same \<^verbatim>\<open>Deferred\<close>s.
\<close>

theorem readiness_independent_of_chunking:
  assumes "protocol_inv d self w"
    and "list_all2 (\<lambda>c s. decode_utf8 c = Inr s) chunks1 texts1"
    and "list_all2 (\<lambda>c s. decode_utf8 c = Inr s) chunks2 texts2"
    and "concat chunks1 = concat chunks2" and "chunks1 \<noteq> []" and "chunks2 \<noteq> []"
  shows "\<exists>self' w1 w2.
           deliver_all (self, w) (map (ChildData 1) chunks1) = Inr (self', w1) \<and>
           deliver_all (self, w) (map (ChildData 1) chunks2) = Inr (self', w2) \<and>
           deferreds w1 = deferreds w2"
proof -
  from assms(2,3,4) have same: "concat texts1 = concat texts2"
    using decode_utf8_concat [of chunks1 texts1] decode_utf8_concat [of chunks2 texts2]
    by simp
  from assms(2,3,5,6) have ne: "texts1 \<noteq> []" "texts2 \<noteq> []"
    by (auto simp: list_all2_Nil2)
  from feed_stdout [OF assms(1,2)] obtain self1 w1
    where run1: "deliver_all (self, w) (map (ChildData 1) chunks1) = Inr (self1, w1)"
      and fed1: "fed d self w texts1 self1 w1"
    by blast
  from feed_stdout [OF assms(1,3)] obtain self2 w2
    where run2: "deliver_all (self, w) (map (ChildData 1) chunks2) = Inr (self2, w2)"
      and fed2: "fed d self w texts2 self2 w2"
    by blast
  from fed1 fed2 same ne have "self1 = self2" and "deferreds w1 = deferreds w2"
    by (auto simp: fed_def marker_arrives_def split: if_splits)
  with run1 run2 show ?thesis by blast
qed

theorem readiness_independent_of_chunking_witness:
  "\<exists>self w self' w1 w2.
     MagicTextProtocol_init empty_world (ascii ''Starting reactor...'') False = (self, w) \<and>
     deliver_all (self, w) (map (ChildData 1) [ascii_bytes ''Starting reactor...'']) =
       Inr (self', w1) \<and>
     deliver_all (self, w)
       (map (ChildData 1) [ascii_bytes ''Star'', ascii_bytes ''ting reactor...'']) =
       Inr (self', w2) \<and>
     deferreds w1 = deferreds w2"
proof -
  from fresh_protocol [of "ascii ''Starting reactor...''" False] obtain self w
    where init: "MagicTextProtocol_init empty_world (ascii ''Starting reactor...'') False = (self, w)"
      and inv: "protocol_inv 0 self w"
    by blast
  have "list_all2 (\<lambda>c s. decode_utf8 c = Inr s)
      [ascii_bytes ''Starting reactor...''] [ascii ''Starting reactor...'']"
    and "list_all2 (\<lambda>c s. decode_utf8 c = Inr s)
      [ascii_bytes ''Star'', ascii_bytes ''ting reactor...'']
      [ascii ''Star'', ascii ''ting reactor...'']"
    by (simp_all add: decode_utf8_ascii_bytes)
  from readiness_independent_of_chunking [OF inv this] init show ?thesis
    by (simp add: ascii_bytes_def)
qed

section \<open>Reachable states\<close>

text \<open>
  C4: The invariant of the protocol object. In every state reached from \<^verbatim>\<open>__init__\<close> by
  calls of the reactor (\<^verbatim>\<open>childDataReceived\<close> on any descriptor, \<^verbatim>\<open>processEnded\<close>) that
  returned, \<open>protocol_inv\<close> holds: \<^verbatim>\<open>magic_seen\<close> is \<^verbatim>\<open>None\<close> exactly when its
  \<^verbatim>\<open>Deferred\<close> has fired, \<^verbatim>\<open>exited\<close> fires only after it, a success means that the buffer
  holds the magic text, and a pending \<^verbatim>\<open>Deferred\<close> that the buffer does not hold it.
\<close>

theorem protocol_inv_reachable:
  assumes "store_wf w0" and "MagicTextProtocol_init w0 mt pl = (self0, w1)"
    and "deliver_all (self0, w1) es = Inr (self, w)"
  shows "protocol_inv (length (deferreds w0)) self w"
  using protocol_inv_init [OF assms(1,2)] assms(3) by (rule deliver_all_inv)

theorem protocol_inv_reachable_witness:
  "\<exists>self0 w1 self w.
     MagicTextProtocol_init empty_world (ascii ''ok'') True = (self0, w1) \<and>
     deliver_all (self0, w1)
       [ChildData 2 (ascii_bytes ''warn''), ChildData 1 (ascii_bytes ''ok''),
        ProcessEnded ProcessDone] = Inr (self, w) \<and>
     protocol_inv 0 self w \<and> magic_seen self = None"
proof -
  from fresh_protocol [of "ascii ''ok''" True] obtain self0 w1
    where init: "MagicTextProtocol_init empty_world (ascii ''ok'') True = (self0, w1)"
      and inv: "protocol_inv 0 self0 w1" and pending: "magic_seen self0 = Some 0"
      and attrs: "magic_text self0 = ascii ''ok''" "output_buf self0 = []"
    by blast
  have ok: "decode_utf8 (ascii_bytes ''ok'') = Inr (ascii ''ok'')"
    and warn: "decode_utf8 (ascii_bytes ''warn'') = Inr (ascii ''warn'')"
    by (simp_all add: decode_utf8_ascii_bytes)
  let ?w2 = "write_stdout w1 (ascii ''warn'')"
  from inv have inv2: "protocol_inv 0 self0 ?w2" by simp
  from out_received_ready [OF inv2 pending ok] attrs obtain self3 w3
    where out: "out_received self0 ?w2 (ascii_bytes ''ok'') = Inr (self3, w3)"
      and seen: "magic_seen self3 = None" "\<not> called (deferred_at w3 (exited self3))"
    by auto
  from processEnded_settled [OF seen, of ProcessDone] obtain w4
    where "processEnded self3 w3 ProcessDone = Inr (self3, w4)"
    by blast
  with warn out have run: "deliver_all (self0, w1)
       [ChildData 2 (ascii_bytes ''warn''), ChildData 1 (ascii_bytes ''ok''),
        ProcessEnded ProcessDone] = Inr (self3, w4)"
    by (simp add: err_received_decoded)
  from protocol_inv_reachable [OF _ init run] init run seen(1) show ?thesis
    by auto
qed

section \<open>The other streams\<close>

text \<open>An event that cannot bear on readiness: data of a descriptor other than 1.\<close>

fun side_stream :: "event \<Rightarrow> bool" where
  "side_stream (ChildData childFD data) = (childFD \<noteq> 1)"
| "side_stream (ProcessEnded reason) = False"

lemma childDataReceived_side:
  assumes "childFD \<noteq> 1" and "childDataReceived self w childFD data = Inr (self', w')"
  shows "self' = self \<and> deferreds w' = deferreds w"
  using assms
  by (cases "decode_utf8 data")
     (auto simp: childDataReceived_def ProcessProtocol_childDataReceived_def err_received_def
           split: if_splits)

text \<open>
  C20: Only standard output takes part in readiness. Whatever is delivered on file
  descriptor 2, 3 or any other descriptor than 1, and whatever text it carries (the
  magic text included), the protocol object and every \<^verbatim>\<open>Deferred\<close> stay as they
  were: \<^verbatim>\<open>magic_seen\<close> does not fire and the buffer does not grow.
\<close>

theorem only_stdout_signals_readiness:
  assumes "list_all side_stream es" and "deliver_all (self, w) es = Inr (self', w')"
  shows "self' = self \<and> deferreds w' = deferreds w"
  using assms
proof (induction es arbitrary: self w)
  case Nil
  then show ?case by simp
next
  case (Cons e es)
  from Cons.prems(1) obtain childFD data where e: "e = ChildData childFD data"
    and fd: "childFD \<noteq> 1"
    by (cases e) auto
  from Cons.prems(2) e obtain self1 w1
    where first: "childDataReceived self w childFD data = Inr (self1, w1)"
      and rest: "deliver_all (self1, w1) es = Inr (self', w')"
    by (auto simp: and_then_eq_Inr_iff)
  from fd first have "self1 = self \<and> deferreds w1 = deferreds w"
    by (rule childDataReceived_side)
  moreover from Cons.prems(1) rest have "self' = self1 \<and> deferreds w' = deferreds w1"
    by (intro Cons.IH) simp_all
  ultimately show ?case by simp
qed

theorem only_stdout_signals_readiness_witness:
  "\<exists>self w w'.
     MagicTextProtocol_init empty_world (ascii ''Starting reactor...'') False = (self, w) \<and>
     deliver_all (self, w)
       [ChildData 2 (ascii_bytes ''Starting reactor...''),
        ChildData 3 (ascii_bytes ''Starting reactor...'')] = Inr (self, w') \<and>
     magic_seen self = Some 0 \<and> deferreds w' = deferreds w"
proof -
  from fresh_protocol [of "ascii ''Starting reactor...''" False] obtain self w
    where init: "MagicTextProtocol_init empty_world (ascii ''Starting reactor...'') False = (self, w)"
      and pending: "magic_seen self = Some 0"
    by blast
  let ?es = "[ChildData 2 (ascii_bytes ''Starting reactor...''),
              ChildData 3 (ascii_bytes ''Starting reactor...'')]"
  have run: "deliver_all (self, w) ?es =
      Inr (self, write_stdout w (ascii ''Starting reactor...''))"
    by (simp add: childDataReceived_2 childDataReceived_other err_received_decoded
                  decode_utf8_ascii_bytes)
  from only_stdout_signals_readiness [of ?es self w, OF _ run] init pending run
  show ?thesis by simp
qed


section \<open>The end of the process\<close>

text \<open>
  C9: A process that ends before the magic text was seen fails readiness. When
  \<^verbatim>\<open>processEnded\<close> is called while \<^verbatim>\<open>magic_seen\<close> is pending, it returns without raising,
  \<^verbatim>\<open>magic_seen\<close> is cleared and its \<^verbatim>\<open>Deferred\<close> has failed with
  \<^verbatim>\<open>Exception("Service failed.")\<close>, \<^verbatim>\<open>exited\<close> has fired with a success, and the buffer is
  unchanged; the invariant holds afterwards.
\<close>

theorem processEnded_before_marker:
  assumes "protocol_inv d self w" and "magic_seen self = Some d"
  shows "\<exists>self' w'.
           processEnded self w reason = Inr (self', w') \<and>
           self' = self\<lparr>magic_seen := None\<rparr> \<and>
           failed (deferred_at w' d) service_failed \<and>
           is_success (deferred_at w' (exited self)) \<and>
           sys_stdout w' = sys_stdout w \<and>
           protocol_inv d self' w'"
proof -
  let ?w' = "set_deferred (set_deferred w d (fired (deferred_at w d) (Failure service_failed)))
               (exited self) (fired (deferred_at w (exited self)) (Success PyNone))"
  from assms have run: "processEnded self w reason = Inr (self\<lparr>magic_seen := None\<rparr>, ?w')"
    by (rule processEnded_pending)
  from assms(1) have refs: "valid_ref w d" "valid_ref w (exited self)" "d \<noteq> exited self"
    by (simp_all add: protocol_inv_refs)
  then have "failed (deferred_at ?w' d) service_failed"
    and "is_success (deferred_at ?w' (exited self))"
    by (simp_all add: deferred_at_set_deferred)
  moreover from assms(1) run have "protocol_inv d (self\<lparr>magic_seen := None\<rparr>) ?w'"
    by (rule processEnded_inv)
  ultimately show ?thesis using run by simp
qed

theorem processEnded_before_marker_witness:
  "\<exists>self w self' w'.
     MagicTextProtocol_init empty_world (ascii ''Starting reactor...'') False = (self, w) \<and>
     processEnded self w (ProcessTerminated (Some 1) None) = Inr (self', w') \<and>
     magic_seen self' = None \<and> failed (deferred_at w' 0) service_failed \<and>
     is_success (deferred_at w' 1) \<and> sys_stdout w' = []"
proof -
  from fresh_protocol [of "ascii ''Starting reactor...''" False] obtain self w
    where init: "MagicTextProtocol_init empty_world (ascii ''Starting reactor...'') False = (self, w)"
      and inv: "protocol_inv 0 self w" and pending: "magic_seen self = Some 0"
      and attrs: "exited self = 1" "sys_stdout w = []"
    by blast
  from processEnded_before_marker [OF inv pending, of "ProcessTerminated (Some 1) None"]
    init attrs
  show ?thesis by auto
qed

text \<open>
  C35: A process that ends after the magic text was seen leaves readiness as it is.
  When \<^verbatim>\<open>processEnded\<close> is called with \<^verbatim>\<open>magic_seen\<close> already cleared and \<^verbatim>\<open>exited\<close> not
  yet fired, the protocol object and the \<^verbatim>\<open>magic_seen\<close> \<^verbatim>\<open>Deferred\<close> are unchanged and
  \<^verbatim>\<open>exited\<close> has fired with a success.
\<close>

theorem processEnded_after_marker:
  assumes "protocol_inv d self w" and "magic_seen self = None"
    and "\<not> called (deferred_at w (exited self))"
  shows "\<exists>w'. processEnded self w reason = Inr (self, w') \<and>
              deferred_at w' d = deferred_at w d \<and>
              is_success (deferred_at w' (exited self)) \<and>
              sys_stdout w' = sys_stdout w"
proof -
  from assms(1) have "valid_ref w (exited self)" "d \<noteq> exited self"
    by (simp_all add: protocol_inv_refs)
  with processEnded_settled [OF assms(2,3), of reason] show ?thesis
    by (simp add: deferred_at_set_deferred)
qed

theorem processEnded_after_marker_witness:
  "\<exists>self w self' w' w''.
     MagicTextProtocol_init empty_world (ascii ''Starting reactor...'') False = (self, w) \<and>
     out_received self w (ascii_bytes ''Starting reactor...'') = Inr (self', w') \<and>
     processEnded self' w' ProcessDone = Inr (self', w'') \<and>
     deferred_at w'' 0 = deferred_at w' 0 \<and> is_success (deferred_at w'' 1)"
proof -
  from fresh_protocol [of "ascii ''Starting reactor...''" False] obtain self w
    where init: "MagicTextProtocol_init empty_world (ascii ''Starting reactor...'') False = (self, w)"
      and inv: "protocol_inv 0 self w" and pending: "magic_seen self = Some 0"
      and attrs: "exited self = 1" "magic_text self = ascii ''Starting reactor...''"
        "output_buf self = []"
    by blast
  have "decode_utf8 (ascii_bytes ''Starting reactor...'') = Inr (ascii ''Starting reactor...'')"
    by (simp add: decode_utf8_ascii_bytes)
  from out_received_ready [OF inv pending this] attrs obtain self' w'
    where run: "out_received self w (ascii_bytes ''Starting reactor...'') = Inr (self', w')"
      and inv': "protocol_inv 0 self' w'" and seen: "magic_seen self' = None"
      and ex: "exited self' = 1" "\<not> called (deferred_at w' (exited self'))"
    by auto
  from processEnded_after_marker [OF inv' seen ex(2), of ProcessDone] init run ex(1)
  show ?thesis by auto
qed

text \<open>
  C36: \<^verbatim>\<open>processEnded\<close> is good for one call. After a call that returned, \<^verbatim>\<open>exited\<close> has
  fired, and a second call raises \<^verbatim>\<open>AlreadyCalledError\<close>: the class relies on the
  reactor to report the end of a process once.
\<close>

theorem processEnded_twice_raises:
  assumes "protocol_inv d self w" and "processEnded self w reason = Inr (self', w')"
  shows "processEnded self' w' reason' = Inl AlreadyCalledError"
proof -
  from assms have "protocol_inv d self' w'" by (rule processEnded_inv)
  moreover from assms have "called (deferred_at w' (exited self'))"
    by (rule processEnded_fires_exited)
  ultimately show ?thesis by (rule processEnded_again)
qed

theorem processEnded_twice_raises_witness:
  "\<exists>self w self' w'.
     MagicTextProtocol_init empty_world (ascii ''Starting reactor...'') False = (self, w) \<and>
     processEnded self w ProcessDone = Inr (self', w') \<and>
     processEnded self' w' ProcessDone = Inl AlreadyCalledError"
proof -
  from fresh_protocol [of "ascii ''Starting reactor...''" False] obtain self w
    where init: "MagicTextProtocol_init empty_world (ascii ''Starting reactor...'') False = (self, w)"
      and inv: "protocol_inv 0 self w" and pending: "magic_seen self = Some 0"
    by blast
  from inv pending obtain self' w' where run: "processEnded self w ProcessDone = Inr (self', w')"
    by (auto simp: processEnded_pending)
  from processEnded_twice_raises [OF inv run, of ProcessDone] init run show ?thesis
    by blast
qed

section \<open>Exceptions\<close>

text \<open>
  C34: Under the invariant the only exception \<^verbatim>\<open>childDataReceived\<close> raises is
  \<^verbatim>\<open>UnicodeDecodeError\<close>, it raises it exactly for a chunk on descriptor 1 or 2 that
  does not decode, and a \<^verbatim>\<open>Deferred\<close> is never fired twice.
\<close>

theorem childDataReceived_raises_iff:
  assumes "protocol_inv d self w"
  shows "childDataReceived self w childFD data = Inl e \<longleftrightarrow>
           e = UnicodeDecodeError \<and> (childFD = 1 \<or> childFD = 2) \<and> raises (decode_utf8 data)"
proof (cases "decode_utf8 data")
  case (Inl x)
  then show ?thesis
    by (auto simp: childDataReceived_def ProcessProtocol_childDataReceived_def
                   out_received_undecodable err_received_undecodable)
next
  case (Inr s)
  from out_received_fed [OF assms Inr] obtain self' w'
    where "out_received self w data = Inr (self', w')" by blast
  with Inr show ?thesis
    by (auto simp: childDataReceived_def ProcessProtocol_childDataReceived_def
                   err_received_def)
qed

theorem childDataReceived_raises_iff_witness:
  "\<exists>self w.
     MagicTextProtocol_init empty_world (ascii ''Starting reactor...'') False = (self, w) \<and>
     childDataReceived self w 1 [0xC3] = Inl UnicodeDecodeError \<and>
     decode_utf8 [0xC3, 0xA9] = Inr [233]"
proof -
  from fresh_protocol [of "ascii ''Starting reactor...''" False] obtain self w
    where init: "MagicTextProtocol_init empty_world (ascii ''Starting reactor...'') False = (self, w)"
      and inv: "protocol_inv 0 self w"
    by blast
  have "raises (decode_utf8 [0xC3])" and "decode_utf8 [0xC3, 0xA9] = Inr [233]"
    by (simp_all add: decode_utf8_def decode_vals_Cons is_cont_def)
  with childDataReceived_raises_iff [OF inv, of 1 "[0xC3]" UnicodeDecodeError] init
  show ?thesis by simp
qed

end
