(* ===== verification/Session.thy ===== *)
theory Session
  imports Magic_Text_Protocol
begin

text \<open>
  The world of a test session, as far as \<^verbatim>\<open>src/integration/util.py\<close> acts on it: the
  process transports that \<^verbatim>\<open>reactor.spawnProcess\<close> has returned, the finalizers registered
  with the pytest \<^verbatim>\<open>request\<close>, and what the program reads of its environment
  (\<^verbatim>\<open>os.environ\<close>, \<^verbatim>\<open>sys.platform\<close>, \<^verbatim>\<open>sys.executable\<close>). The record extends \<open>world\<close>, so
  the methods of the protocol run on it unchanged. The reactor is the function \<open>react\<close>
  on the events of the operating system: a child has written to a pipe, a child has
  been reaped. The invariant \<open>session_inv\<close> ties each transport to the \<^verbatim>\<open>Deferred\<close>s of its
  protocol and is kept by every event.
\<close>

section \<open>Process transports\<close>

text \<open>
  An \<^verbatim>\<open>IProcessTransport\<close>: \<^verbatim>\<open>pid\<close> is \<^verbatim>\<open>None\<close> once the reactor has reaped the child,
  \<open>proto\<close> is the protocol object the transport delivers to (nothing else holds it once
  \<^verbatim>\<open>run_service\<close> has returned), the \<open>proc_\<close> fields record the arguments of
  \<^verbatim>\<open>spawnProcess\<close>, \<open>signals_sent\<close> the signals that \<^verbatim>\<open>signalProcess\<close> delivered, and
  \<open>os_gone\<close> says that the operating system no longer knows the process although the
  reactor has not reaped it (the case in which \<^verbatim>\<open>os.kill\<close> fails with \<^verbatim>\<open>ESRCH\<close>).
\<close>

record process =
  pid :: "nat option"
  proto :: MagicTextProtocol
  proc_executable :: str
  proc_args :: "str list"
  proc_path :: "str option"
  proc_childFDs :: "(nat \<times> char) list option"
  proc_env :: "str \<rightharpoonup> str"
  signals_sent :: "str list"
  os_gone :: bool

text \<open>
  A finalizer of the request. The program registers one kind,
  \<^verbatim>\<open>partial(_cleanup_service_process, process, protocol.exited)\<close>: the transport and the
  \<^verbatim>\<open>Deferred\<close>, both by reference.
\<close>

datatype finalizer = CleanupServiceProcess ref ref

record session = world +
  processes :: "process list"
  finalizers :: "finalizer list"
  os_environ :: "str \<rightharpoonup> str"
  sys_platform :: str
  sys_executable :: str
  os_next_pid :: nat
  os_refuses_spawn :: bool

text \<open>A session in which nothing has happened, on a given platform.\<close>

definition new_session :: "str \<Rightarrow> str \<Rightarrow> (str \<rightharpoonup> str) \<Rightarrow> session" where
  "new_session platform_name python environ =
     \<lparr>deferreds = [], sys_stdout = [], processes = [], finalizers = [],
      os_environ = environ, sys_platform = platform_name, sys_executable = python,
      os_next_pid = 1000, os_refuses_spawn = False\<rparr>"

section \<open>Operations on transports\<close>

definition process_at :: "'a session_scheme \<Rightarrow> ref \<Rightarrow> process" where
  "process_at w p = processes w ! p"

definition valid_process :: "'a session_scheme \<Rightarrow> ref \<Rightarrow> bool" where
  "valid_process w p \<longleftrightarrow> p < length (processes w)"

definition set_process :: "'a session_scheme \<Rightarrow> ref \<Rightarrow> process \<Rightarrow> 'a session_scheme" where
  "set_process w p x = w\<lparr>processes := (processes w)[p := x]\<rparr>"

text \<open>
  \<^verbatim>\<open>reactor.spawnProcess\<close>: a new transport with the process id the operating system
  assigns, or \<^verbatim>\<open>OSError\<close> when it cannot create the process.
\<close>

definition spawnProcess ::
  "'a session_scheme \<Rightarrow> MagicTextProtocol \<Rightarrow> str \<Rightarrow> str list \<Rightarrow> str option \<Rightarrow>
   (nat \<times> char) list option \<Rightarrow> (str \<rightharpoonup> str) \<Rightarrow> (ref \<times> 'a session_scheme) result" where
  "spawnProcess w protocol executable args path childFDs env =
     (if os_refuses_spawn w then Inl OSError
      else Inr (length (processes w),
                w\<lparr>processes := processes w @
                     [\<lparr>pid = Some (os_next_pid w), proto = protocol,
                       proc_executable = executable, proc_args = args, proc_path = path,
                       proc_childFDs = childFDs, proc_env = env, signals_sent = [],
                       os_gone = False\<rparr>],
                   os_next_pid := Suc (os_next_pid w)\<rparr>))"

text \<open>
  \<^verbatim>\<open>process.signalProcess(sig)\<close>: \<^verbatim>\<open>ProcessExitedAlready\<close> when the transport has no
  process id any more or the operating system does not know the process; else the
  signal is delivered.
\<close>

definition signalProcess :: "'a session_scheme \<Rightarrow> ref \<Rightarrow> str \<Rightarrow> 'a session_scheme result" where
  "signalProcess w p sig =
     (case pid (process_at w p) of
        None \<Rightarrow> Inl ProcessExitedAlready
      | Some n \<Rightarrow>
          if os_gone (process_at w p) then Inl ProcessExitedAlready
          else Inr (set_process w p
                 ((process_at w p)\<lparr>signals_sent := signals_sent (process_at w p) @ [sig]\<rparr>)))"

text \<open>\<^verbatim>\<open>request.addfinalizer\<close>; pytest runs the finalizers last registered first.\<close>

definition addfinalizer :: "'a session_scheme \<Rightarrow> finalizer \<Rightarrow> 'a session_scheme" where
  "addfinalizer w f = w\<lparr>finalizers := f # finalizers w\<rparr>"

section \<open>The reactor\<close>

text \<open>
  The descriptors of a child the reactor reads from: those wired \<^verbatim>\<open>'r'\<close> in
  \<^verbatim>\<open>childFDs\<close>, and 1 and 2 when \<^verbatim>\<open>childFDs\<close> is \<^verbatim>\<open>None\<close>.
\<close>

definition default_childFDs :: "(nat \<times> char) list" where
  "default_childFDs = [(0, CHR ''w''), (1, CHR ''r''), (2, CHR ''r'')]"

definition readable_fds :: "process \<Rightarrow> nat list" where
  "readable_fds x =
     map fst (filter (\<lambda>(fd, mode). mode = CHR ''r'')
       (case proc_childFDs x of None \<Rightarrow> default_childFDs | Some fds \<Rightarrow> fds))"

text \<open>
  What the operating system reports: a child wrote data to one of its descriptors, a
  child has exited and was reaped by the reactor, a process vanished without the
  reactor reaping it.
\<close>

datatype os_event = ChildWrote ref nat bytes | ChildExited ref reason | ProcessVanished ref

text \<open>A method call on the protocol of a transport; the object is stored back.\<close>

definition on_protocol ::
  "'a session_scheme \<Rightarrow> ref \<Rightarrow>
   (MagicTextProtocol \<Rightarrow> 'a session_scheme \<Rightarrow> (MagicTextProtocol \<times> 'a session_scheme) result) \<Rightarrow>
   'a session_scheme result" where
  "on_protocol w p m =
     and_then (m (proto (process_at w p)) w)
       (\<lambda>(self', w'). Inr (set_process w' p ((process_at w' p)\<lparr>proto := self'\<rparr>)))"

text \<open>
  The reactor's reaction to an event. Data goes to \<^verbatim>\<open>childDataReceived\<close> of the
  transport's protocol; at the exit of a child the transport loses its \<^verbatim>\<open>pid\<close> and the
  protocol's \<^verbatim>\<open>processEnded\<close> is called.
\<close>

fun react :: "'a session_scheme \<Rightarrow> os_event \<Rightarrow> 'a session_scheme result" where
  "react w (ChildWrote p childFD data) =
     on_protocol w p (\<lambda>self w. childDataReceived self w childFD data)"
| "react w (ChildExited p reason) =
     on_protocol (set_process w p ((process_at w p)\<lparr>pid := None\<rparr>)) p
       (\<lambda>self w. processEnded self w reason)"
| "react w (ProcessVanished p) =
     Inr (set_process w p ((process_at w p)\<lparr>os_gone := True\<rparr>))"

text \<open>
  The events that can occur in a state: they concern a transport that exists and has
  not been reaped, and data arrives on a descriptor the reactor reads.
\<close>

fun enabled :: "'a session_scheme \<Rightarrow> os_event \<Rightarrow> bool" where
  "enabled w (ChildWrote p childFD data) \<longleftrightarrow>
     valid_process w p \<and> pid (process_at w p) \<noteq> None \<and>
     childFD \<in> set (readable_fds (process_at w p))"
| "enabled w (ChildExited p reason) \<longleftrightarrow> valid_process w p \<and> pid (process_at w p) \<noteq> None"
| "enabled w (ProcessVanished p) \<longleftrightarrow> valid_process w p \<and> pid (process_at w p) \<noteq> None"

text \<open>
  The reactor catches what a handler raises and goes on: an event whose handler raises
  leaves the state as it is (the handler of an enabled event raises nothing but
  \<^verbatim>\<open>UnicodeDecodeError\<close>, and that before it assigns anything).
\<close>

definition reactor_step :: "'a session_scheme \<Rightarrow> os_event \<Rightarrow> 'a session_scheme" where
  "reactor_step w e = (case react w e of Inl ex \<Rightarrow> w | Inr w' \<Rightarrow> w')"

definition reactor_run :: "'a session_scheme \<Rightarrow> os_event list \<Rightarrow> 'a session_scheme" where
  "reactor_run w es = fold (\<lambda>e w. reactor_step w e) es w"

text \<open>A sequence of events that can occur one after the other from a state.\<close>

fun feasible :: "'a session_scheme \<Rightarrow> os_event list \<Rightarrow> bool" where
  "feasible w [] \<longleftrightarrow> True"
| "feasible w (e # es) \<longleftrightarrow> enabled w e \<and> feasible (reactor_step w e) es"

section \<open>The invariant of a session\<close>

text \<open>
  The \<^verbatim>\<open>Deferred\<close> \<^verbatim>\<open>exited\<close> has no callbacks while it is pending, and its result is
  \<^verbatim>\<open>None\<close> once it has fired.
\<close>

definition exit_inv :: "pyval deferred \<Rightarrow> bool" where
  "exit_inv dx \<longleftrightarrow> (if called dx then succeeded dx PyNone else callbacks dx = [])"

text \<open>
  \<open>process_inv w d x\<close>, for the reference \<open>d\<close> of the readiness \<^verbatim>\<open>Deferred\<close> of the
  transport \<open>x\<close>: the invariant of the protocol holds, the transport has lost its
  \<^verbatim>\<open>pid\<close> exactly when \<^verbatim>\<open>exited\<close> has fired, and \<^verbatim>\<open>exited\<close> satisfies \<open>exit_inv\<close>.
\<close>

definition process_inv :: "'a session_scheme \<Rightarrow> ref \<Rightarrow> process \<Rightarrow> bool" where
  "process_inv w d x \<longleftrightarrow>
     protocol_inv d (proto x) w \<and>
     (pid x = None \<longleftrightarrow> called (deferred_at w (exited (proto x)))) \<and>
     exit_inv (deferred_at w (exited (proto x)))"

text \<open>The \<^verbatim>\<open>Deferred\<close>s of a session's protocols, readiness first.\<close>

definition session_refs :: "ref list \<Rightarrow> process list \<Rightarrow> ref list" where
  "session_refs ds xs = ds @ map (\<lambda>x. exited (proto x)) xs"

fun finalizer_ok :: "'a session_scheme \<Rightarrow> finalizer \<Rightarrow> bool" where
  "finalizer_ok w (CleanupServiceProcess p ex) \<longleftrightarrow>
     valid_process w p \<and> ex = exited (proto (process_at w p))"

text \<open>
  \<open>session_inv ds w\<close>, for the list \<open>ds\<close> of the readiness \<^verbatim>\<open>Deferred\<close>s in the order of
  the launches: every transport satisfies \<open>process_inv\<close>, no two protocols share a
  \<^verbatim>\<open>Deferred\<close>, and every finalizer names a transport and the \<^verbatim>\<open>exited\<close> of its protocol.
\<close>

definition session_inv :: "ref list \<Rightarrow> 'a session_scheme \<Rightarrow> bool" where
  "session_inv ds w \<longleftrightarrow>
     store_wf w \<and> list_all2 (process_inv w) ds (processes w) \<and>
     distinct (session_refs ds (processes w)) \<and> list_all (finalizer_ok w) (finalizers w)"

text \<open>The transport an event is about.\<close>

fun event_process :: "os_event \<Rightarrow> ref" where
  "event_process (ChildWrote p childFD data) = p"
| "event_process (ChildExited p reason) = p"
| "event_process (ProcessVanished p) = p"

text \<open>
  \<open>touches_process w p w'\<close>: the session \<open>w'\<close> differs from \<open>w\<close> at most in the transport
  \<open>p\<close>, in the \<^verbatim>\<open>Deferred\<close>s of its protocol and in what was printed.
\<close>

definition touches_process :: "'a session_scheme \<Rightarrow> ref \<Rightarrow> 'a session_scheme \<Rightarrow> bool" where
  "touches_process w p w' \<longleftrightarrow>
     length (deferreds w') = length (deferreds w) \<and>
     (\<forall>r. r \<notin> protocol_refs (proto (process_at w p)) \<longrightarrow> deferred_at w' r = deferred_at w r) \<and>
     length (processes w') = length (processes w) \<and>
     (\<forall>q. q \<noteq> p \<longrightarrow> process_at w' q = process_at w q) \<and>
     exited (proto (process_at w' p)) = exited (proto (process_at w p)) \<and>
     finalizers w' = finalizers w \<and> os_environ w' = os_environ w \<and>
     sys_platform w' = sys_platform w \<and> sys_executable w' = sys_executable w \<and>
     os_next_pid w' = os_next_pid w \<and> os_refuses_spawn w' = os_refuses_spawn w \<and>
     session.more w' = session.more w"

lemmas session_ops [fow_ops] =
  process_at_def valid_process_def set_process_def spawnProcess_def signalProcess_def
  addfinalizer_def on_protocol_def reactor_step_def

section \<open>Frame facts\<close>

lemma set_process_frame [simp, fow_frame]:
  "deferreds (set_process w p x) = deferreds w"
  "sys_stdout (set_process w p x) = sys_stdout w"
  "finalizers (set_process w p x) = finalizers w"
  "os_environ (set_process w p x) = os_environ w"
  "sys_platform (set_process w p x) = sys_platform w"
  "sys_executable (set_process w p x) = sys_executable w"
  "os_next_pid (set_process w p x) = os_next_pid w"
  "os_refuses_spawn (set_process w p x) = os_refuses_spawn w"
  "length (processes (set_process w p x)) = length (processes w)"
  "valid_process (set_process w p x) q = valid_process w q"
  "session.more (set_process w p x) = session.more w"
  by (simp_all add: set_process_def valid_process_def)

lemma set_process_store [simp, fow_frame]:
  "valid_ref (set_process w p x) r = valid_ref w r"
  "deferred_at (set_process w p x) r = deferred_at w r"
  "store_wf (set_process w p x) = store_wf w"
  "protocol_inv d self (set_process w p x) = protocol_inv d self w"
  by (simp_all add: valid_ref_def deferred_at_def store_wf_def protocol_inv_def)

lemma process_at_set_process:
  "valid_process w p \<Longrightarrow>
   process_at (set_process w p x) q = (if q = p then x else process_at w q)"
  by (simp add: process_at_def set_process_def valid_process_def)

lemma process_at_set_other [simp]:
  "q \<noteq> p \<Longrightarrow> process_at (set_process w p x) q = process_at w q"
  by (simp add: process_at_def set_process_def)

lemma addfinalizer_frame [simp, fow_frame]:
  "deferreds (addfinalizer w f) = deferreds w"
  "sys_stdout (addfinalizer w f) = sys_stdout w"
  "processes (addfinalizer w f) = processes w"
  "finalizers (addfinalizer w f) = f # finalizers w"
  "valid_process (addfinalizer w f) q = valid_process w q"
  "process_at (addfinalizer w f) q = process_at w q"
  "valid_ref (addfinalizer w f) r = valid_ref w r"
  "deferred_at (addfinalizer w f) r = deferred_at w r"
  "store_wf (addfinalizer w f) = store_wf w"
  by (simp_all add: addfinalizer_def valid_process_def process_at_def valid_ref_def
                    deferred_at_def store_wf_def)

lemma stdout_session [simp, fow_frame]:
  fixes w :: "'a session_scheme"
  shows "processes (print_stdout w s) = processes w"
    and "processes (write_stdout w s) = processes w"
    and "finalizers (print_stdout w s) = finalizers w"
    and "finalizers (write_stdout w s) = finalizers w"
    and "process_at (print_stdout w s) p = process_at w p"
    and "process_at (write_stdout w s) p = process_at w p"
    and "valid_process (print_stdout w s) p = valid_process w p"
    and "valid_process (write_stdout w s) p = valid_process w p"
  by (simp_all add: print_stdout_def write_stdout_def process_at_def valid_process_def)

text \<open>
  An operation of the runtime or a method of the protocol, run on a session, leaves the
  fields of the session alone.
\<close>

lemma touches_only_session:
  fixes w w' :: "'a session_scheme"
  assumes "touches_only w R w'"
  shows "processes w' = processes w" and "finalizers w' = finalizers w"
    and "os_environ w' = os_environ w" and "sys_platform w' = sys_platform w"
    and "sys_executable w' = sys_executable w" and "os_next_pid w' = os_next_pid w"
    and "os_refuses_spawn w' = os_refuses_spawn w" and "session.more w' = session.more w"
  using touches_only_more [OF assms] by (cases w, cases w', simp)+

lemma touches_only_process_at:
  fixes w w' :: "'a session_scheme"
  shows "touches_only w R w' \<Longrightarrow> process_at w' p = process_at w p"
  by (simp add: process_at_def touches_only_session)

lemma touches_only_valid_process:
  fixes w w' :: "'a session_scheme"
  shows "touches_only w R w' \<Longrightarrow> valid_process w' p = valid_process w p"
  by (simp add: valid_process_def touches_only_session)

section \<open>What an event touches\<close>

lemma touches_process_refl [simp]: "touches_process w p w"
  by (simp add: touches_process_def)

lemma touches_only_touches_process:
  fixes w w' :: "'a session_scheme"
  assumes "touches_only w R w'" and "R \<subseteq> protocol_refs (proto (process_at w p))"
  shows "touches_process w p w'"
  using assms
  by (auto simp: touches_process_def touches_only_session touches_only_process_at
                 touches_only_def)

lemma touches_process_set:
  assumes "touches_process w p w'" and "valid_process w p"
    and "exited (proto x) = exited (proto (process_at w p))"
  shows "touches_process w p (set_process w' p x)"
  using assms
  by (auto simp: touches_process_def process_at_set_process valid_process_def)

lemma on_protocol_touches:
  fixes w :: "'a session_scheme"
  assumes run: "on_protocol w p m = Inr w'" and valid: "valid_process w p"
    and touches: "\<And>self' w1. m (proto (process_at w p)) w = Inr (self', w1) \<Longrightarrow>
        touches_only w (protocol_refs (proto (process_at w p))) w1 \<and>
        exited self' = exited (proto (process_at w p))"
  shows "touches_process w p w'"
proof -
  from run obtain self' w1 where m: "m (proto (process_at w p)) w = Inr (self', w1)"
    and w': "w' = set_process w1 p ((process_at w1 p)\<lparr>proto := self'\<rparr>)"
    by (auto simp: on_protocol_def and_then_eq_Inr_iff)
  from touches [OF m] have t: "touches_only w (protocol_refs (proto (process_at w p))) w1"
    and ex: "exited self' = exited (proto (process_at w p))"
    by simp_all
  from t have "touches_process w p w1" by (rule touches_only_touches_process) simp
  from this valid have "touches_process w p (set_process w1 p ((process_at w1 p)\<lparr>proto := self'\<rparr>))"
    by (rule touches_process_set) (simp add: ex)
  with w' show ?thesis by simp
qed

text \<open>
  An event touches the transport it is about and the \<^verbatim>\<open>Deferred\<close>s of its protocol;
  every other transport, every other \<^verbatim>\<open>Deferred\<close> and the finalizers are as before.
\<close>

lemma react_touches:
  fixes w :: "'a session_scheme"
  assumes "react w e = Inr w'" and "valid_process w (event_process e)"
  shows "touches_process w (event_process e) w'"
proof (cases e)
  case (ChildWrote p childFD data)
  with assms show ?thesis
    by (auto intro!: on_protocol_touches [where m = "\<lambda>self w. childDataReceived self w childFD data"]
             dest: childDataReceived_attrs
             intro: touches_only_mono [OF childDataReceived_touches]
             simp: protocol_refs_def)
next
  case (ChildExited p reason)
  let ?w0 = "set_process w p ((process_at w p)\<lparr>pid := None\<rparr>)"
  from assms ChildExited have valid: "valid_process w p"
    and run: "on_protocol ?w0 p (\<lambda>self w. processEnded self w reason) = Inr w'"
    by simp_all
  from valid have same: "proto (process_at ?w0 p) = proto (process_at w p)"
    by (simp add: process_at_set_process)
  from run have "touches_process ?w0 p w'"
    by (rule on_protocol_touches)
       (insert valid, auto dest: processEnded_attrs processEnded_touches)
  with valid same ChildExited show ?thesis
    by (auto simp: touches_process_def)
next
  case (ProcessVanished p)
  with assms show ?thesis
    by (auto intro: touches_process_set [OF touches_process_refl])
qed

section \<open>The invariant is kept by the reactor\<close>

lemma session_refs_apart:
  assumes "distinct (session_refs ds xs)" and "length ds = length xs"
    and "i < length xs" and "j < length xs"
  shows "ds ! i \<noteq> exited (proto (xs ! j))"
    and "i \<noteq> j \<Longrightarrow> ds ! i \<noteq> ds ! j"
    and "i \<noteq> j \<Longrightarrow> exited (proto (xs ! i)) \<noteq> exited (proto (xs ! j))"
proof -
  from assms(1) have d: "distinct ds" "distinct (map (\<lambda>x. exited (proto x)) xs)"
    and apart: "set ds \<inter> set (map (\<lambda>x. exited (proto x)) xs) = {}"
    by (simp_all add: session_refs_def)
  from assms(2-4) have "ds ! i \<in> set ds" "exited (proto (xs ! j)) \<in> set (map (\<lambda>x. exited (proto x)) xs)"
    by simp_all
  with apart show "ds ! i \<noteq> exited (proto (xs ! j))" by auto
  from d(1) assms(2-4) show "i \<noteq> j \<Longrightarrow> ds ! i \<noteq> ds ! j"
    by (simp add: nth_eq_iff_index_eq)
  from d(2) assms(3,4) show "i \<noteq> j \<Longrightarrow> exited (proto (xs ! i)) \<noteq> exited (proto (xs ! j))"
    using nth_eq_iff_index_eq [of "map (\<lambda>x. exited (proto x)) xs" i j] by simp
qed

lemma session_inv_process:
  "session_inv ds w \<Longrightarrow> valid_process w p \<Longrightarrow> process_inv w (ds ! p) (process_at w p)"
  by (simp add: session_inv_def valid_process_def process_at_def list_all2_conv_all_nth)

lemma session_inv_protocol:
  "session_inv ds w \<Longrightarrow> valid_process w p \<Longrightarrow>
   protocol_inv (ds ! p) (proto (process_at w p)) w"
  by (drule (1) session_inv_process) (simp add: process_inv_def)

lemma session_inv_pid:
  "session_inv ds w \<Longrightarrow> valid_process w p \<Longrightarrow>
   pid (process_at w p) = None \<longleftrightarrow> called (deferred_at w (exited (proto (process_at w p))))"
  by (drule (1) session_inv_process) (simp add: process_inv_def)

lemma session_inv_exit:
  "session_inv ds w \<Longrightarrow> valid_process w p \<Longrightarrow>
   exit_inv (deferred_at w (exited (proto (process_at w p))))"
  by (drule (1) session_inv_process) (simp add: process_inv_def)

lemma session_inv_length: "session_inv ds w \<Longrightarrow> length ds = length (processes w)"
  by (auto simp: session_inv_def dest: list_all2_lengthD)

lemma process_inv_stdout [simp]:
  fixes w :: "'a session_scheme"
  shows "process_inv (print_stdout w s) = process_inv w"
    and "process_inv (write_stdout w s) = process_inv w"
  by (intro ext, simp add: process_inv_def)+

lemma finalizer_ok_stdout [simp]:
  fixes w :: "'a session_scheme"
  shows "finalizer_ok (print_stdout w s) = finalizer_ok w"
    and "finalizer_ok (write_stdout w s) = finalizer_ok w"
  by (intro ext, case_tac x, simp)+

lemma session_inv_stdout [simp]:
  fixes w :: "'a session_scheme"
  shows "session_inv ds (print_stdout w s) = session_inv ds w"
    and "session_inv ds (write_stdout w s) = session_inv ds w"
  by (simp_all add: session_inv_def)

lemma enabled_stdout [simp]:
  fixes w :: "'a session_scheme"
  shows "enabled (print_stdout w s) e = enabled w e"
  by (cases e) simp_all

text \<open>The invariant reads the \<^verbatim>\<open>Deferred\<close>s, the transports and the finalizers only.\<close>

lemma process_inv_same:
  "deferreds w' = deferreds w \<Longrightarrow> process_inv w' = process_inv w"
  by (intro ext)
     (simp add: process_inv_def protocol_inv_def valid_ref_def deferred_at_def store_wf_def)

lemma session_inv_same:
  assumes "session_inv ds w" and "deferreds w' = deferreds w"
    and "processes w' = processes w" and "set (finalizers w') \<subseteq> set (finalizers w)"
  shows "session_inv ds w'"
proof -
  have "finalizer_ok w' f" if "finalizer_ok w f" for f
    using that assms(3) by (cases f) (simp add: valid_process_def process_at_def)
  with assms show ?thesis
    by (auto simp: session_inv_def process_inv_same [of w' w] store_wf_def list_all_iff)
qed

lemma session_refs_valid:
  assumes "session_inv ds w" and "r \<in> set (session_refs ds (processes w))"
  shows "valid_ref w r"
proof -
  from assms(1) have len: "length ds = length (processes w)" by (rule session_inv_length)
  from assms(2) obtain p where p: "p < length (processes w)"
    and r: "r = ds ! p \<or> r = exited (proto (processes w ! p))"
    using len by (auto simp: session_refs_def in_set_conv_nth)
  from assms(1) p have "protocol_inv (ds ! p) (proto (process_at w p)) w"
    by (simp add: session_inv_protocol valid_process_def)
  with r show ?thesis by (auto simp: process_at_def dest: protocol_inv_refs)
qed

text \<open>
  The invariant survives a change that touches one transport, when that transport
  satisfies its own invariant afterwards.
\<close>

lemma session_inv_touched:
  assumes inv: "session_inv ds w" and valid: "valid_process w p"
    and t: "touches_process w p w'"
    and own: "process_inv w' (ds ! p) (process_at w' p)" and wf: "store_wf w'"
  shows "session_inv ds w'"
proof -
  let ?xs = "processes w" and ?xs' = "processes w'"
  from inv have len: "length ds = length ?xs" by (rule session_inv_length)
  from inv have dist: "distinct (session_refs ds ?xs)" by (simp add: session_inv_def)
  from t have len': "length ?xs' = length ?xs" and dlen: "length (deferreds w') = length (deferreds w)"
    and others: "\<And>q. q \<noteq> p \<Longrightarrow> ?xs' ! q = ?xs ! q"
    and ex: "exited (proto (?xs' ! p)) = exited (proto (?xs ! p))"
    and fin: "finalizers w' = finalizers w"
    and outside: "\<And>r. r \<notin> protocol_refs (proto (?xs ! p)) \<Longrightarrow> deferred_at w' r = deferred_at w r"
    by (simp_all add: touches_process_def process_at_def)
  from inv valid have "protocol_refs (proto (?xs ! p)) \<subseteq> {ds ! p, exited (proto (?xs ! p))}"
    by (auto dest!: session_inv_protocol protocol_inv_protocol_refs simp: process_at_def)
  with outside have outside': "\<And>r. r \<noteq> ds ! p \<Longrightarrow> r \<noteq> exited (proto (?xs ! p)) \<Longrightarrow>
      deferred_at w' r = deferred_at w r"
    by auto
  have exs: "map (\<lambda>x. exited (proto x)) ?xs' = map (\<lambda>x. exited (proto x)) ?xs"
    using len' others ex by (intro nth_equalityI) (auto, metis)
  have "process_inv w' (ds ! q) (?xs' ! q)" if q: "q < length ?xs" for q
  proof (cases "q = p")
    case True
    with own show ?thesis by (simp add: process_at_def)
  next
    case False
    from valid have p: "p < length ?xs" by (simp add: valid_process_def)
    from inv q have old: "process_inv w (ds ! q) (?xs ! q)"
      by (simp add: session_inv_def list_all2_conv_all_nth)
    from session_refs_apart [OF dist len q p] session_refs_apart [OF dist len p q] False
    have "deferred_at w' (ds ! q) = deferred_at w (ds ! q)"
      and "deferred_at w' (exited (proto (?xs ! q))) = deferred_at w (exited (proto (?xs ! q)))"
      by (auto intro!: outside')
    with old dlen wf others [OF False] show ?thesis
      by (auto simp: process_inv_def intro: protocol_inv_agree)
  qed
  with len len' have "list_all2 (process_inv w') ds ?xs'"
    by (simp add: list_all2_conv_all_nth)
  moreover from dist exs have "distinct (session_refs ds ?xs')"
    by (simp add: session_refs_def)
  moreover have "finalizer_ok w' f" if "finalizer_ok w f" for f
  proof (cases f)
    case (CleanupServiceProcess q d)
    with that len' others [of q] ex show ?thesis
      by (cases "q = p") (simp_all add: valid_process_def process_at_def)
  qed
  with inv fin have "list_all (finalizer_ok w') (finalizers w')"
    by (auto simp: session_inv_def list_all_iff)
  ultimately show ?thesis using wf by (simp add: session_inv_def)
qed

lemma on_protocol_result:
  assumes "on_protocol w p m = Inr w'"
  obtains self' w1 where "m (proto (process_at w p)) w = Inr (self', w1)"
    and "w' = set_process w1 p ((process_at w1 p)\<lparr>proto := self'\<rparr>)"
  using assms by (auto simp: on_protocol_def and_then_eq_Inr_iff)

text \<open>After a method call the transport holds the new protocol object.\<close>

lemma on_protocol_process_at:
  fixes w :: "'a session_scheme"
  assumes "m (proto (process_at w p)) w = Inr (self', w1)"
    and "touches_only w R w1" and "valid_process w p"
  shows "process_at (set_process w1 p ((process_at w1 p)\<lparr>proto := self'\<rparr>)) p =
         (process_at w p)\<lparr>proto := self'\<rparr>"
  using assms
  by (simp add: process_at_set_process touches_only_valid_process touches_only_process_at)

lemma childWrote_inv:
  fixes w :: "'a session_scheme"
  assumes inv: "session_inv ds w" and valid: "valid_process w p"
    and alive: "pid (process_at w p) \<noteq> None"
    and run: "react w (ChildWrote p childFD data) = Inr w'"
  shows "session_inv ds w'"
proof -
  let ?x = "process_at w p"
  from run obtain self' w1
    where m: "childDataReceived (proto ?x) w childFD data = Inr (self', w1)"
      and w': "w' = set_process w1 p ((process_at w1 p)\<lparr>proto := self'\<rparr>)"
    by (auto elim: on_protocol_result)
  from inv valid have pinv: "protocol_inv (ds ! p) (proto ?x) w" by (rule session_inv_protocol)
  from pinv m have pinv': "protocol_inv (ds ! p) self' w1" by (rule childDataReceived_inv)
  from m have t: "touches_only w (set_option (magic_seen (proto ?x))) w1"
    by (rule childDataReceived_touches)
  from m t valid w' have x': "process_at w' p = ?x\<lparr>proto := self'\<rparr>"
    by (simp add: on_protocol_process_at)
  from inv valid alive have "\<not> called (deferred_at w (exited (proto ?x)))"
    by (simp add: session_inv_pid)
  with childDataReceived_exited [OF pinv m] alive pinv' x' w' session_inv_process [OF inv valid]
  have "process_inv w' (ds ! p) (process_at w' p)"
    by (simp add: process_inv_def)
  moreover from pinv' w' have "store_wf w'" by (simp add: protocol_inv_refs)
  moreover from run valid have "touches_process w p w'"
    using react_touches [of w "ChildWrote p childFD data" w'] by simp
  ultimately show ?thesis using inv valid by (intro session_inv_touched [of ds w p w']) simp_all
qed

lemma childExited_inv:
  fixes w :: "'a session_scheme"
  assumes inv: "session_inv ds w" and valid: "valid_process w p"
    and run: "react w (ChildExited p reason) = Inr w'"
  shows "session_inv ds w'"
proof -
  let ?x = "process_at w p"
  let ?w0 = "set_process w p (?x\<lparr>pid := None\<rparr>)"
  from valid have x0: "process_at ?w0 p = ?x\<lparr>pid := None\<rparr>"
    by (simp add: process_at_set_process)
  from run x0 obtain self' w1
    where m: "processEnded (proto ?x) ?w0 reason = Inr (self', w1)"
      and w': "w' = set_process w1 p ((process_at w1 p)\<lparr>proto := self'\<rparr>)"
    by (auto elim!: on_protocol_result)
  from inv valid have pinv0: "protocol_inv (ds ! p) (proto ?x) ?w0"
    by (simp add: session_inv_protocol)
  from pinv0 m have pinv': "protocol_inv (ds ! p) self' w1" by (rule processEnded_inv)
  from pinv0 m have fired: "called (deferred_at w1 (exited self'))"
    by (rule processEnded_fires_exited)
  from session_inv_process [OF inv valid] processEnded_exited [OF pinv0 m]
  have ex: "exit_inv (deferred_at w1 (exited self'))"
    by (simp add: process_inv_def exit_inv_def fired_def succeeded_def)
  from m have "touches_only ?w0 (protocol_refs (proto ?x)) w1" by (rule processEnded_touches)
  with valid w' x0 have x': "process_at w' p = ?x\<lparr>pid := None, proto := self'\<rparr>"
    by (simp add: process_at_set_process touches_only_valid_process touches_only_process_at)
  from pinv' fired ex x' w' have "process_inv w' (ds ! p) (process_at w' p)"
    by (simp add: process_inv_def)
  moreover from pinv' w' have "store_wf w'" by (simp add: protocol_inv_refs)
  moreover from run valid have "touches_process w p w'"
    using react_touches [of w "ChildExited p reason" w'] by simp
  ultimately show ?thesis using inv valid by (intro session_inv_touched [of ds w p w']) simp_all
qed

lemma processVanished_inv:
  assumes inv: "session_inv ds w" and valid: "valid_process w p"
    and run: "react w (ProcessVanished p) = Inr w'"
  shows "session_inv ds w'"
proof -
  from run have w': "w' = set_process w p ((process_at w p)\<lparr>os_gone := True\<rparr>)" by simp
  with valid session_inv_process [OF inv valid]
  have "process_inv w' (ds ! p) (process_at w' p)"
    by (simp add: process_inv_def process_at_set_process)
  moreover from inv w' have "store_wf w'" by (simp add: session_inv_def)
  moreover from run valid have "touches_process w p w'"
    using react_touches [of w "ProcessVanished p" w'] by simp
  ultimately show ?thesis using inv valid by (intro session_inv_touched [of ds w p w']) simp_all
qed

lemma react_inv:
  fixes w :: "'a session_scheme"
  assumes "session_inv ds w" and "enabled w e" and "react w e = Inr w'"
  shows "session_inv ds w'"
  using assms
  by (cases e) (auto intro: childWrote_inv childExited_inv processVanished_inv)

lemma reactor_step_inv:
  fixes w :: "'a session_scheme"
  shows "session_inv ds w \<Longrightarrow> enabled w e \<Longrightarrow> session_inv ds (reactor_step w e)"
  by (auto simp: reactor_step_def intro: react_inv split: sum.splits)

section \<open>What an event does to a readiness \<^verbatim>\<open>Deferred\<close>\<close>

text \<open>
  The readiness \<^verbatim>\<open>Deferred\<close> of a transport changes only by an event of that transport:
  data on descriptor 1 may fire it with the protocol object, the exit may fail it.
\<close>

lemma react_readiness:
  fixes w :: "'a session_scheme"
  assumes inv: "session_inv ds w" and p: "valid_process w p"
    and en: "enabled w e" and run: "react w e = Inr w'"
  shows "deferred_at w' (ds ! p) = deferred_at w (ds ! p) \<or>
         \<not> called (deferred_at w (ds ! p)) \<and> event_process e = p \<and>
         ((\<exists>data. e = ChildWrote p 1 data) \<and>
            deferred_at w' (ds ! p) = fired (deferred_at w (ds ! p)) (Success PyProtocol) \<or>
          (\<exists>reason. e = ChildExited p reason) \<and>
            deferred_at w' (ds ! p) = fired (deferred_at w (ds ! p)) (Failure service_failed))"
proof (cases "event_process e = p")
  case False
  let ?q = "event_process e"
  from en have q: "valid_process w ?q" by (cases e) simp_all
  from run q have "touches_process w ?q w'" by (rule react_touches)
  moreover from inv q have "protocol_refs (proto (process_at w ?q)) \<subseteq>
      {ds ! ?q, exited (proto (process_at w ?q))}"
    by (auto dest!: session_inv_protocol protocol_inv_protocol_refs)
  moreover from inv p q False have "ds ! p \<noteq> ds ! ?q" "ds ! p \<noteq> exited (proto (process_at w ?q))"
    using session_refs_apart [of ds "processes w" p ?q]
    by (simp_all add: session_inv_def session_inv_length valid_process_def process_at_def)
  ultimately show ?thesis by (auto simp: touches_process_def)
next
  case True
  from inv p have pinv: "protocol_inv (ds ! p) (proto (process_at w p)) w"
    by (rule session_inv_protocol)
  show ?thesis
  proof (cases e)
    case (ChildWrote q childFD data)
    with True run obtain self' w1
      where m: "childDataReceived (proto (process_at w p)) w childFD data = Inr (self', w1)"
        and w': "w' = set_process w1 p ((process_at w1 p)\<lparr>proto := self'\<rparr>)"
      by (auto elim: on_protocol_result)
    from childDataReceived_readiness [OF pinv m] w' ChildWrote True show ?thesis by auto
  next
    case (ChildExited q reason)
    let ?w0 = "set_process w p ((process_at w p)\<lparr>pid := None\<rparr>)"
    from p have x0: "proto (process_at ?w0 p) = proto (process_at w p)"
      by (simp add: process_at_set_process)
    from ChildExited True run x0 obtain self' w1
      where m: "processEnded (proto (process_at w p)) ?w0 reason = Inr (self', w1)"
        and w': "w' = set_process w1 p ((process_at w1 p)\<lparr>proto := self'\<rparr>)"
      by (auto elim!: on_protocol_result)
    from pinv have "protocol_inv (ds ! p) (proto (process_at w p)) ?w0" by simp
    from processEnded_readiness [OF this m] w' ChildExited True show ?thesis by auto
  next
    case (ProcessVanished q)
    with run show ?thesis by auto
  qed
qed

section \<open>Runs of the reactor\<close>

lemma reactor_run_simps [simp]:
  "reactor_run w [] = w"
  "reactor_run w (e # es) = reactor_run (reactor_step w e) es"
  "reactor_run w (es @ es') = reactor_run (reactor_run w es) es'"
  by (simp_all add: reactor_run_def)

lemma feasible_append [simp]:
  "feasible w (es @ es') \<longleftrightarrow> feasible w es \<and> feasible (reactor_run w es) es'"
  by (induction es arbitrary: w) simp_all

lemma reactor_run_inv:
  fixes w :: "'a session_scheme"
  shows "session_inv ds w \<Longrightarrow> feasible w es \<Longrightarrow> session_inv ds (reactor_run w es)"
  by (induction es arbitrary: w) (simp_all add: reactor_step_inv)

section \<open>What an event does to a transport\<close>

text \<open>The exit of a child is always handled: \<^verbatim>\<open>processEnded\<close> does not raise.\<close>

lemma react_childExited_returns:
  fixes w :: "'a session_scheme"
  assumes inv: "session_inv ds w" and en: "enabled w (ChildExited p reason)"
  shows "\<exists>w'. react w (ChildExited p reason) = Inr w'"
proof -
  let ?x = "process_at w p"
  let ?w0 = "set_process w p (?x\<lparr>pid := None\<rparr>)"
  from en have valid: "valid_process w p" and alive: "pid ?x \<noteq> None" by simp_all
  from inv valid have "protocol_inv (ds ! p) (proto ?x) ?w0"
    by (simp add: session_inv_protocol)
  moreover from inv valid alive have "\<not> called (deferred_at ?w0 (exited (proto ?x)))"
    by (simp add: session_inv_pid)
  ultimately obtain st where "processEnded (proto ?x) ?w0 reason = Inr st"
    using processEnded_returns_iff [of "ds ! p" "proto ?x" ?w0 reason] by auto
  with valid show ?thesis
    by (cases st) (simp add: on_protocol_def process_at_set_process)
qed

text \<open>
  An event keeps what \<^verbatim>\<open>spawnProcess\<close> recorded and the signals that were sent; the
  \<^verbatim>\<open>pid\<close> is lost at the exit and at no other event.
\<close>

lemma react_process_at:
  fixes w :: "'a session_scheme"
  assumes "valid_process w p" and "enabled w e" and "react w e = Inr w'"
  shows "\<exists>self' gone.
           process_at w' p =
             (process_at w p)\<lparr>pid := (if \<exists>reason. e = ChildExited p reason then None
                                         else pid (process_at w p)),
                                 proto := self', os_gone := gone\<rparr>"
proof (cases "event_process e = p")
  case False
  from assms(2) have "valid_process w (event_process e)" by (cases e) simp_all
  with assms(3) have "touches_process w (event_process e) w'" by (rule react_touches)
  with False have "process_at w' p = process_at w p" by (simp add: touches_process_def)
  moreover from False have "\<not> (\<exists>reason. e = ChildExited p reason)" by auto
  ultimately show ?thesis
    by (auto intro!: exI [of _ "proto (process_at w p)"] exI [of _ "os_gone (process_at w p)"])
next
  case True
  show ?thesis
  proof (cases e)
    case (ChildWrote q childFD data)
    with assms(3) True obtain self' w1
      where m: "childDataReceived (proto (process_at w p)) w childFD data = Inr (self', w1)"
        and w': "w' = set_process w1 p ((process_at w1 p)\<lparr>proto := self'\<rparr>)"
      by (auto elim: on_protocol_result)
    from childDataReceived_touches [OF m] assms(1) ChildWrote w'
    have "process_at w' p = (process_at w p)\<lparr>proto := self'\<rparr>"
      by (simp add: process_at_set_process touches_only_valid_process touches_only_process_at)
    with ChildWrote show ?thesis
      by (auto intro!: exI [of _ self'] exI [of _ "os_gone (process_at w p)"])
  next
    case (ChildExited q reason)
    let ?w0 = "set_process w p ((process_at w p)\<lparr>pid := None\<rparr>)"
    from assms(1) have x0: "process_at ?w0 p = (process_at w p)\<lparr>pid := None\<rparr>"
      by (simp add: process_at_set_process)
    from assms(3) ChildExited True x0 obtain self' w1
      where m: "processEnded (proto (process_at w p)) ?w0 reason = Inr (self', w1)"
        and w': "w' = set_process w1 p ((process_at w1 p)\<lparr>proto := self'\<rparr>)"
      by (auto elim!: on_protocol_result)
    from processEnded_touches [OF m] assms(1) x0 w'
    have "process_at w' p = (process_at w p)\<lparr>pid := None, proto := self'\<rparr>"
      by (simp add: process_at_set_process touches_only_valid_process touches_only_process_at)
    with ChildExited True show ?thesis
      by (auto intro!: exI [of _ self'] exI [of _ "os_gone (process_at w p)"])
  next
    case (ProcessVanished q)
    with assms True have "process_at w' p = (process_at w p)\<lparr>os_gone := True\<rparr>"
      by (auto simp: process_at_set_process)
    with ProcessVanished show ?thesis
      by (auto intro!: exI [of _ "proto (process_at w p)"] exI [of _ True])
  qed
qed

lemma react_process:
  fixes w :: "'a session_scheme"
  assumes "valid_process w p" and "enabled w e" and "react w e = Inr w'"
  shows "signals_sent (process_at w' p) = signals_sent (process_at w p)"
    and "pid (process_at w' p) =
           (if \<exists>reason. e = ChildExited p reason then None else pid (process_at w p))"
    and "proc_executable (process_at w' p) = proc_executable (process_at w p)"
    and "proc_args (process_at w' p) = proc_args (process_at w p)"
    and "proc_path (process_at w' p) = proc_path (process_at w p)"
    and "proc_childFDs (process_at w' p) = proc_childFDs (process_at w p)"
    and "proc_env (process_at w' p) = proc_env (process_at w p)"
  using react_process_at [OF assms] by auto

lemma react_valid_process:
  fixes w :: "'a session_scheme"
  assumes "enabled w e" and "react w e = Inr w'"
  shows "valid_process w' p = valid_process w p"
proof -
  from assms(1) have "valid_process w (event_process e)" by (cases e) simp_all
  with assms(2) have "touches_process w (event_process e) w'" by (rule react_touches)
  then show ?thesis by (simp add: touches_process_def valid_process_def)
qed

section \<open>Steps of the reactor\<close>

text \<open>
  A step of the reactor is the reaction to the event, or nothing when the handler
  raised; the handler of an exit does not raise.
\<close>

lemma reactor_step_cases:
  fixes w :: "'a session_scheme"
  assumes "session_inv ds w" and "enabled w e"
  obtains (handled) "react w e = Inr (reactor_step w e)"
    | (raised) "reactor_step w e = w" and "\<And>p reason. e \<noteq> ChildExited p reason"
proof (cases "react w e")
  case (Inl ex)
  then have "reactor_step w e = w" by (simp add: reactor_step_def)
  moreover from Inl assms have "e \<noteq> ChildExited p reason" for p reason
    using react_childExited_returns [of ds w p reason] by auto
  ultimately show ?thesis by (rule raised)
next
  case (Inr w')
  then show ?thesis by (intro handled) (simp add: reactor_step_def)
qed

lemma reactor_step_pid:
  fixes w :: "'a session_scheme"
  assumes "session_inv ds w" and "valid_process w p" and "enabled w e"
  shows "pid (process_at (reactor_step w e) p) =
           (if \<exists>reason. e = ChildExited p reason then None else pid (process_at w p))"
  using assms(1,3)
  by (cases rule: reactor_step_cases) (simp_all add: react_process(2) [OF assms(2,3)])

lemma reactor_step_signals:
  fixes w :: "'a session_scheme"
  assumes "session_inv ds w" and "valid_process w p" and "enabled w e"
  shows "signals_sent (process_at (reactor_step w e) p) = signals_sent (process_at w p)"
  using assms(1,3)
  by (cases rule: reactor_step_cases) (simp_all add: react_process(1) [OF assms(2,3)])

lemma reactor_step_valid_process:
  fixes w :: "'a session_scheme"
  assumes "session_inv ds w" and "enabled w e"
  shows "valid_process (reactor_step w e) p = valid_process w p"
  using assms
  by (cases rule: reactor_step_cases) (simp_all add: react_valid_process [OF assms(2)])

lemma reactor_step_touches:
  fixes w :: "'a session_scheme"
  assumes "session_inv ds w" and "enabled w e"
  shows "touches_process w (event_process e) (reactor_step w e)"
  using assms
proof (cases rule: reactor_step_cases)
  case handled
  from assms(2) have "valid_process w (event_process e)" by (cases e) simp_all
  with handled show ?thesis by (rule react_touches)
qed simp

lemma reactor_step_exited_ref:
  fixes w :: "'a session_scheme"
  assumes "session_inv ds w" and "enabled w e"
  shows "exited (proto (process_at (reactor_step w e) p)) = exited (proto (process_at w p))"
  using reactor_step_touches [OF assms]
  by (cases "p = event_process e") (simp_all add: touches_process_def)

lemma reactor_step_finalizers:
  fixes w :: "'a session_scheme"
  assumes "session_inv ds w" and "enabled w e"
  shows "finalizers (reactor_step w e) = finalizers w"
    and "session.more (reactor_step w e) = session.more w"
  using reactor_step_touches [OF assms] by (simp_all add: touches_process_def)

lemma reactor_step_stdout:
  fixes w :: "'a session_scheme"
  assumes "session_inv ds w" and "enabled w e"
  shows "prefix (sys_stdout w) (sys_stdout (reactor_step w e))"
  using assms
proof (cases rule: reactor_step_cases)
  case handled
  let ?p = "event_process e"
  from assms(2) have valid: "valid_process w ?p" by (cases e) simp_all
  with assms(1) have pinv: "protocol_inv (ds ! ?p) (proto (process_at w ?p)) w"
    by (rule session_inv_protocol)
  show ?thesis
  proof (cases e)
    case (ChildWrote p childFD data)
    with handled obtain self' w1
      where "childDataReceived (proto (process_at w p)) w childFD data = Inr (self', w1)"
        and "reactor_step w e = set_process w1 p ((process_at w1 p)\<lparr>proto := self'\<rparr>)"
      by (auto elim: on_protocol_result)
    with pinv ChildWrote show ?thesis by (auto dest: childDataReceived_stdout_prefix)
  next
    case (ChildExited p reason)
    let ?w0 = "set_process w p ((process_at w p)\<lparr>pid := None\<rparr>)"
    from valid ChildExited have "proto (process_at ?w0 p) = proto (process_at w p)"
      by (simp add: process_at_set_process)
    with handled ChildExited obtain self' w1
      where "processEnded (proto (process_at w p)) ?w0 reason = Inr (self', w1)"
        and "reactor_step w e = set_process w1 p ((process_at w1 p)\<lparr>proto := self'\<rparr>)"
      by (auto elim!: on_protocol_result)
    then show ?thesis by (auto dest: processEnded_stdout)
  next
    case (ProcessVanished p)
    then show ?thesis by (simp add: reactor_step_def)
  qed
qed simp

text \<open>Along a feasible run.\<close>

lemma reactor_run_facts:
  fixes w :: "'a session_scheme"
  assumes "session_inv ds w" and "feasible w es"
  shows "valid_process (reactor_run w es) p = valid_process w p"
    and "exited (proto (process_at (reactor_run w es) p)) = exited (proto (process_at w p))"
    and "finalizers (reactor_run w es) = finalizers w"
    and "prefix (sys_stdout w) (sys_stdout (reactor_run w es))"
    and "valid_process w p \<Longrightarrow>
         signals_sent (process_at (reactor_run w es) p) = signals_sent (process_at w p)"
  using assms
proof (induction es arbitrary: w)
  case Nil
  {
    case 1 show ?case by simp
  next
    case 2 show ?case by simp
  next
    case 3 show ?case by simp
  next
    case 4 show ?case by simp
  next
    case 5 show ?case by simp
  }
next
  case (Cons e es)
  {
    case 1
    then show ?case
      using Cons.IH(1) [of "reactor_step w e"]
      by (simp add: reactor_step_inv reactor_step_valid_process)
  next
    case 2
    then show ?case
      using Cons.IH(2) [of "reactor_step w e"]
      by (simp add: reactor_step_inv reactor_step_exited_ref)
  next
    case 3
    then show ?case
      using Cons.IH(3) [of "reactor_step w e"]
      by (simp add: reactor_step_inv reactor_step_finalizers(1))
  next
    case 4
    then show ?case
      using Cons.IH(4) [of "reactor_step w e"] reactor_step_stdout [of ds w e]
      by (auto simp: reactor_step_inv intro: prefix_order.trans)
  next
    case 5
    then show ?case
      using Cons.IH(5) [of "reactor_step w e"]
      by (simp add: reactor_step_inv reactor_step_valid_process reactor_step_signals)
  }
qed

section \<open>Standard output of a child, event by event\<close>

text \<open>
  Chunks that a live child writes to descriptor 1 are events that can occur, and the
  reactor feeds them to the protocol of its transport.
\<close>

lemma reactor_run_stdout:
  fixes w :: "'a session_scheme"
  assumes "list_all2 (\<lambda>c s. decode_utf8 c = Inr s) chunks texts"
    and "session_inv ds w" and "valid_process w p" and "pid (process_at w p) \<noteq> None"
    and "1 \<in> set (readable_fds (process_at w p))"
  shows "feasible w (map (ChildWrote p 1) chunks) \<and>
         fed (ds ! p) (proto (process_at w p)) w texts
           (proto (process_at (reactor_run w (map (ChildWrote p 1) chunks)) p))
           (reactor_run w (map (ChildWrote p 1) chunks))"
  using assms
proof (induction arbitrary: w rule: list_all2_induct)
  case Nil
  then show ?case by simp
next
  case (Cons c chunks s texts)
  let ?e = "ChildWrote p 1 c"
  let ?x = "process_at w p"
  from Cons.prems have en: "enabled w ?e" by simp
  from Cons.prems(1,2) have pinv: "protocol_inv (ds ! p) (proto ?x) w"
    by (rule session_inv_protocol)
  from out_received_fed [OF pinv Cons.hyps(1)] obtain self1 w1
    where out: "out_received (proto ?x) w c = Inr (self1, w1)"
      and fed1: "fed (ds ! p) (proto ?x) w [s] self1 w1"
    by blast
  let ?w' = "set_process w1 p ((process_at w1 p)\<lparr>proto := self1\<rparr>)"
  from out have step: "react w ?e = Inr ?w'" by (simp add: on_protocol_def)
  then have w': "reactor_step w ?e = ?w'" by (simp add: reactor_step_def)
  from Cons.prems(1) en step have inv': "session_inv ds ?w'" by (rule react_inv)
  from react_process_at [OF Cons.prems(2) en step] react_valid_process [OF en step, of p]
    Cons.prems(2,3,4)
  have x': "valid_process ?w' p" "pid (process_at ?w' p) \<noteq> None"
    "1 \<in> set (readable_fds (process_at ?w' p))"
    by (auto simp: readable_fds_def)
  from out_received_touches [OF out] Cons.prems(2)
  have self1: "proto (process_at ?w' p) = self1"
    by (simp add: process_at_set_process touches_only_valid_process)
  from Cons.IH [OF inv' x'] self1
  have f: "feasible ?w' (map (ChildWrote p 1) chunks)"
    and fed': "fed (ds ! p) self1 ?w' texts
        (proto (process_at (reactor_run ?w' (map (ChildWrote p 1) chunks)) p))
        (reactor_run ?w' (map (ChildWrote p 1) chunks))"
    by simp_all
  from fed' have "fed (ds ! p) self1 w1 texts
        (proto (process_at (reactor_run ?w' (map (ChildWrote p 1) chunks)) p))
        (reactor_run ?w' (map (ChildWrote p 1) chunks))"
    by (simp add: fed_cong_store [of ?w' w1])
  with fed1 have "fed (ds ! p) (proto ?x) w (s # texts)
        (proto (process_at (reactor_run ?w' (map (ChildWrote p 1) chunks)) p))
        (reactor_run ?w' (map (ChildWrote p 1) chunks))"
    by (rule fed_Cons)
  with en f w' show ?case by simp
qed

end
