(* ===== verification/Run_Service.thy ===== *)
theory Run_Service
  imports Session
begin

text \<open>
  \<^verbatim>\<open>run_service\<close> (lines 64 to 105 of \<^verbatim>\<open>src/integration/util.py\<close>): the protocol is
  created, the child is spawned with an environment that forces unbuffered output and
  with the descriptor table of the platform, the cleanup is registered as a finalizer
  of the request, and the \<^verbatim>\<open>Deferred\<close> \<^verbatim>\<open>magic_seen\<close> is returned with a callback that
  replaces its value by the process transport. The theory shows what a launch leaves
  in the session, that it keeps the invariant of the session, and what the returned
  \<^verbatim>\<open>Deferred\<close> can become.
\<close>

section \<open>The launch\<close>

text \<open>\<^verbatim>\<open>env = os.environ.copy(); env['PYTHONUNBUFFERED'] = '1'\<close>.\<close>

definition unbuffered_env :: "(str \<rightharpoonup> str) \<Rightarrow> (str \<rightharpoonup> str)" where
  "unbuffered_env environ = environ(ascii ''PYTHONUNBUFFERED'' \<mapsto> ascii ''1'')"

text \<open>The descriptor table: four descriptors, or \<^verbatim>\<open>None\<close> on Windows.\<close>

definition service_childFDs :: "str \<Rightarrow> (nat \<times> char) list option" where
  "service_childFDs platform_name =
     (if platform_name \<noteq> ascii ''win32''
      then Some [(0, CHR ''w''), (1, CHR ''r''), (2, CHR ''r''), (3, CHR ''r'')]
      else None)"

text \<open>The callback \<^verbatim>\<open>lambda ignored: process\<close>.\<close>

definition process_callback :: "ref \<Rightarrow> pyval \<Rightarrow> pyval" where
  "process_callback process = (\<lambda>ignored. PyProcess process)"

text \<open>
  \<^verbatim>\<open>run_service\<close>. The parameters \<^verbatim>\<open>reactor\<close> and \<^verbatim>\<open>request\<close> are the session. The result
  is the reference of the returned \<^verbatim>\<open>Deferred\<close>; \<^verbatim>\<open>addCallback\<close> returns the
  \<^verbatim>\<open>Deferred\<close> it is called on. The attribute \<^verbatim>\<open>magic_seen\<close> is read from the protocol
  as \<^verbatim>\<open>__init__\<close> left it: nothing runs between \<^verbatim>\<open>__init__\<close> and the last line that
  could assign it.
\<close>

definition run_service ::
  "'a session_scheme \<Rightarrow> str \<Rightarrow> str \<Rightarrow> str list \<Rightarrow> str option \<Rightarrow> bool \<Rightarrow>
   (ref \<times> 'a session_scheme) result" where
  "run_service w mt executable args cwd pl =
     (let (protocol, w1) = MagicTextProtocol_init w mt pl;
          env = unbuffered_env (os_environ w1)
      in and_then
           (spawnProcess w1 protocol executable args cwd
              (service_childFDs (sys_platform w1)) env)
           (\<lambda>(process, w2).
              let w3 = addfinalizer w2 (CleanupServiceProcess process (exited protocol))
              in (case magic_seen protocol of
                    None \<Rightarrow> Inl AttributeError
                  | Some d \<Rightarrow> Inr (d, addCallback_at w3 d (process_callback process)))))"

text \<open>The transport a launch in \<open>w\<close> creates, and the protocol \<^verbatim>\<open>__init__\<close> builds for it.\<close>

definition launched_protocol :: "'a session_scheme \<Rightarrow> str \<Rightarrow> bool \<Rightarrow> MagicTextProtocol" where
  "launched_protocol w mt pl =
     \<lparr>magic_seen = Some (length (deferreds w)), exited = Suc (length (deferreds w)),
      magic_text = mt, output_buf = [], print_logs = pl\<rparr>"

definition launched_process ::
  "'a session_scheme \<Rightarrow> str \<Rightarrow> str \<Rightarrow> str list \<Rightarrow> str option \<Rightarrow> bool \<Rightarrow> process" where
  "launched_process w mt executable args cwd pl =
     \<lparr>pid = Some (os_next_pid w), proto = launched_protocol w mt pl,
      proc_executable = executable, proc_args = args, proc_path = cwd,
      proc_childFDs = service_childFDs (sys_platform w),
      proc_env = unbuffered_env (os_environ w), signals_sent = [], os_gone = False\<rparr>"

text \<open>
  \<open>launch_inv w d p\<close>: the \<^verbatim>\<open>Deferred\<close> \<open>d\<close> that the launch of the transport \<open>p\<close> returned is
  pending with the one callback \<^verbatim>\<open>run_service\<close> added, or it has fired and its result is
  the transport or the failure of \<^verbatim>\<open>processEnded\<close>.
\<close>

definition launch_inv :: "'a session_scheme \<Rightarrow> ref \<Rightarrow> ref \<Rightarrow> bool" where
  "launch_inv w d p \<longleftrightarrow>
     (if called (deferred_at w d)
      then succeeded (deferred_at w d) (PyProcess p) \<or> failed (deferred_at w d) service_failed
      else callbacks (deferred_at w d) = [process_callback p])"

lemmas run_service_ops [fow_ops] =
  run_service_def unbuffered_env_def service_childFDs_def process_callback_def

section \<open>What a launch does\<close>

lemma run_service_refused:
  "os_refuses_spawn w \<Longrightarrow>
   run_service w mt executable args cwd pl = Inl OSError"
  by (simp add: run_service_def MagicTextProtocol_init_eq spawnProcess_def)

text \<open>The state after a launch, written out.\<close>

lemma run_service_eq:
  assumes "\<not> os_refuses_spawn w"
  shows "run_service w mt executable args cwd pl =
     Inr (length (deferreds w),
          w\<lparr>deferreds := deferreds w @
               [Deferred\<lparr>callbacks := [process_callback (length (processes w))]\<rparr>, Deferred],
            processes := processes w @
               [launched_process w mt executable args cwd pl],
            finalizers := CleanupServiceProcess (length (processes w))
                            (Suc (length (deferreds w))) # finalizers w,
            os_next_pid := Suc (os_next_pid w)\<rparr>)"
  using assms
  by (simp add: run_service_def MagicTextProtocol_init_eq spawnProcess_def addfinalizer_def
                addCallback_at_def set_deferred_def deferred_at_def addCallback_def
                launched_process_def launched_protocol_def nth_append Deferred_def)

lemma run_service_Inr_iff:
  "(\<exists>d w'. run_service w mt executable args cwd pl = Inr (d, w')) \<longleftrightarrow>
   \<not> os_refuses_spawn w"
  by (cases "os_refuses_spawn w") (simp_all add: run_service_refused run_service_eq)

section \<open>A launch keeps the invariant\<close>

text \<open>What exists before a launch is as it was after it.\<close>

lemma run_service_old:
  assumes "run_service w mt executable args cwd pl = Inr (d, w')"
  shows "valid_ref w r \<Longrightarrow> deferred_at w' r = deferred_at w r"
    and "valid_process w q \<Longrightarrow> process_at w' q = process_at w q"
    and "sys_stdout w' = sys_stdout w" and "os_environ w' = os_environ w"
    and "sys_platform w' = sys_platform w" and "sys_executable w' = sys_executable w"
    and "length (deferreds w) \<le> length (deferreds w')"
    and "length (processes w) \<le> length (processes w')"
    and "session.more w' = session.more w"
  using assms
  by (cases "os_refuses_spawn w";
      auto simp: run_service_refused run_service_eq deferred_at_def valid_ref_def
                 process_at_def valid_process_def nth_append)+

lemma run_service_new:
  assumes "run_service w mt executable args cwd pl = Inr (d, w')"
  shows "d = length (deferreds w)"
    and "processes w' = processes w @ [launched_process w mt executable args cwd pl]"
    and "deferred_at w' d = Deferred\<lparr>callbacks := [process_callback (length (processes w))]\<rparr>"
    and "deferred_at w' (Suc d) = Deferred"
    and "length (deferreds w') = Suc (Suc d)"
    and "finalizers w' = CleanupServiceProcess (length (processes w)) (Suc d) # finalizers w"
    and "os_next_pid w' = Suc (os_next_pid w)"
  using assms
  by (cases "os_refuses_spawn w";
      auto simp: run_service_refused run_service_eq deferred_at_def nth_append)+

lemma launched_process_inv:
  assumes "run_service w mt executable args cwd pl = Inr (d, w')" and "store_wf w"
  shows "process_inv w' d (launched_process w mt executable args cwd pl)" and "store_wf w'"
proof -
  from assms(1) have no: "\<not> os_refuses_spawn w" by (auto simp: run_service_refused)
  from no assms show "store_wf w'"
    by (auto simp: run_service_eq store_wf_def deferred_wf_def Deferred_def)
  with run_service_new [OF assms(1)]
  show "process_inv w' d (launched_process w mt executable args cwd pl)"
    by (simp add: process_inv_def protocol_inv_def launched_process_def launched_protocol_def
                  valid_ref_def is_success_def Deferred_def exit_inv_def)
qed

lemma run_service_old_process_inv:
  assumes inv: "session_inv ds w"
    and run: "run_service w mt executable args cwd pl = Inr (d, w')"
    and q: "q < length (processes w)"
  shows "process_inv w' (ds ! q) (processes w ! q)"
proof -
  note old = run_service_old [OF run]
  from inv have wf: "store_wf w" and len: "length ds = length (processes w)"
    by (simp_all add: session_inv_def session_inv_length)
  from inv q have P: "process_inv w (ds ! q) (processes w ! q)"
    by (simp add: session_inv_def list_all2_conv_all_nth)
  from q len have "ds ! q \<in> set (session_refs ds (processes w))"
    and "exited (proto (processes w ! q)) \<in> set (session_refs ds (processes w))"
    by (simp_all add: session_refs_def)
  with inv have "valid_ref w (ds ! q)" and "valid_ref w (exited (proto (processes w ! q)))"
    by (auto intro: session_refs_valid)
  then have "deferred_at w' (ds ! q) = deferred_at w (ds ! q)"
    and "deferred_at w' (exited (proto (processes w ! q))) =
         deferred_at w (exited (proto (processes w ! q)))"
    by (simp_all add: old(1))
  with P old(7) launched_process_inv(2) [OF run wf] show ?thesis
    by (auto simp: process_inv_def intro: protocol_inv_agree)
qed

lemma run_service_inv:
  assumes inv: "session_inv ds w"
    and run: "run_service w mt executable args cwd pl = Inr (d, w')"
  shows "session_inv (ds @ [d]) w'"
proof -
  note new = run_service_new [OF run] and old = run_service_old [OF run]
  from inv have wf: "store_wf w" and len: "length ds = length (processes w)"
    by (simp_all add: session_inv_def session_inv_length)
  have valid: "valid_ref w r" if "r \<in> set (session_refs ds (processes w))" for r
    using inv that by (rule session_refs_valid)
  from len run_service_old_process_inv [OF inv run]
  have "list_all2 (process_inv w') ds (processes w)"
    by (simp add: list_all2_conv_all_nth)
  with new(2) launched_process_inv(1) [OF run wf]
  have "list_all2 (process_inv w') (ds @ [d]) (processes w')"
    by (simp add: list_all2_appendI)
  moreover have "distinct (session_refs (ds @ [d]) (processes w'))"
  proof -
    from inv have "distinct (session_refs ds (processes w))" by (simp add: session_inv_def)
    moreover have "d \<notin> set (session_refs ds (processes w))"
      and "Suc d \<notin> set (session_refs ds (processes w))"
      using valid [of d] valid [of "Suc d"] new(1) by (auto simp: valid_ref_def)
    ultimately show ?thesis using new(1,2)
      by (auto simp: session_refs_def launched_process_def launched_protocol_def)
  qed
  moreover have "list_all (finalizer_ok w') (finalizers w')"
  proof -
    have "finalizer_ok w' f" if "finalizer_ok w f" for f
      using that old(2,8) by (cases f) (auto simp: valid_process_def)
    with inv have "list_all (finalizer_ok w') (finalizers w)"
      by (auto simp: session_inv_def list_all_iff)
    with new(1,2,6) show ?thesis
      by (simp add: valid_process_def process_at_def launched_process_def launched_protocol_def)
  qed
  ultimately show ?thesis using launched_process_inv(2) [OF run wf]
    by (simp add: session_inv_def)
qed

section \<open>The returned \<^verbatim>\<open>Deferred\<close>\<close>

lemma launch_inv_new:
  "run_service w mt executable args cwd pl = Inr (d, w') \<Longrightarrow>
   launch_inv w' d (length (processes w))"
  by (drule run_service_new(3)) (simp add: launch_inv_def Deferred_def)

lemma launch_inv_run_service:
  "launch_inv w d p \<Longrightarrow> valid_ref w d \<Longrightarrow>
   run_service w mt executable args cwd pl = Inr (d', w') \<Longrightarrow> launch_inv w' d p"
  by (drule (1) run_service_old(1)) (simp add: launch_inv_def)

lemma launch_inv_fired:
  assumes "launch_inv w d p" and "\<not> called (deferred_at w d)"
  shows "succeeded (fired (deferred_at w d) (Success PyProtocol)) (PyProcess p)"
    and "failed (fired (deferred_at w d) (Failure service_failed)) service_failed"
  using assms by (simp_all add: launch_inv_def fired_def succeeded_def failed_def process_callback_def)

lemma launch_inv_react:
  fixes w :: "'a session_scheme"
  assumes "session_inv ds w" and "valid_process w p" and "launch_inv w (ds ! p) p"
    and "enabled w e" and "react w e = Inr w'"
  shows "launch_inv w' (ds ! p) p"
  using react_readiness [OF assms(1,2,4,5)] assms(3) launch_inv_fired [OF assms(3)]
  by (auto simp: launch_inv_def)

lemma launch_inv_reactor_step:
  fixes w :: "'a session_scheme"
  assumes "session_inv ds w" and "valid_process w p" and "launch_inv w (ds ! p) p"
    and "enabled w e"
  shows "launch_inv (reactor_step w e) (ds ! p) p"
  using assms(1,4)
  by (cases rule: reactor_step_cases) (simp_all add: launch_inv_react [OF assms] assms(3))

lemma launch_inv_reactor_run:
  fixes w :: "'a session_scheme"
  shows "session_inv ds w \<Longrightarrow> valid_process w p \<Longrightarrow> launch_inv w (ds ! p) p \<Longrightarrow>
         feasible w es \<Longrightarrow> launch_inv (reactor_run w es) (ds ! p) p"
  by (induction es arbitrary: w)
     (simp_all add: reactor_step_inv reactor_step_valid_process launch_inv_reactor_step)

section \<open>A session with one service\<close>

lemma session_inv_new_session [simp]: "session_inv [] (new_session platform_name python environ)"
  by (simp add: session_inv_def new_session_def store_wf_def session_refs_def)

lemma launched_process_simps [simp]:
  "pid (launched_process w mt executable args cwd pl) = Some (os_next_pid w)"
  "os_gone (launched_process w mt executable args cwd pl) = False"
  "signals_sent (launched_process w mt executable args cwd pl) = []"
  "proto (launched_process w mt executable args cwd pl) = launched_protocol w mt pl"
  "proc_childFDs (launched_process w mt executable args cwd pl) =
     service_childFDs (sys_platform w)"
  by (simp_all add: launched_process_def)

lemma launched_protocol_simps [simp]:
  "magic_seen (launched_protocol w mt pl) = Some (length (deferreds w))"
  "exited (launched_protocol w mt pl) = Suc (length (deferreds w))"
  "magic_text (launched_protocol w mt pl) = mt"
  "output_buf (launched_protocol w mt pl) = []"
  "print_logs (launched_protocol w mt pl) = pl"
  by (simp_all add: launched_protocol_def)

lemma readable_fds_launched:
  "readable_fds (launched_process w mt executable args cwd pl) =
     (if sys_platform w = ascii ''win32'' then [1, 2] else [1, 2, 3])"
  by (simp add: readable_fds_def service_childFDs_def default_childFDs_def)

text \<open>The first launch of a session: the references are 0 and 1, the transport is 0.\<close>

lemma first_launch:
  "\<exists>w. run_service (new_session platform_name python environ) mt executable args cwd pl =
          Inr (0, w) \<and>
        session_inv [0] w \<and> launch_inv w 0 0 \<and> valid_process w 0 \<and>
        process_at w 0 = launched_process (new_session platform_name python environ)
                           mt executable args cwd pl \<and>
        pid (process_at w 0) = Some 1000 \<and> exited (proto (process_at w 0)) = 1 \<and>
        magic_seen (proto (process_at w 0)) = Some 0 \<and>
        finalizers w = [CleanupServiceProcess 0 1] \<and> sys_stdout w = [] \<and>
        \<not> called (deferred_at w 0) \<and> \<not> called (deferred_at w 1)"
proof -
  let ?w0 = "new_session platform_name python environ"
  have "\<not> os_refuses_spawn ?w0" by (simp add: new_session_def)
  with run_service_Inr_iff [of ?w0 mt executable args cwd pl] obtain d w
    where run: "run_service ?w0 mt executable args cwd pl = Inr (d, w)"
    by auto
  from run_service_new [OF run] have d: "d = 0" by (simp add: new_session_def)
  from run_service_inv [OF session_inv_new_session run] launch_inv_new [OF run]
    run_service_new [OF run] run_service_old(3) [OF run] run d
  show ?thesis
    by (auto simp: new_session_def valid_process_def process_at_def Deferred_def)
qed

section \<open>Properties of the launch\<close>

text \<open>
  C2: What \<^verbatim>\<open>run_service\<close> leaves in the session. When the operating system creates the
  process, the call returns the reference that \<^verbatim>\<open>__init__\<close> stored in \<^verbatim>\<open>magic_seen\<close>;
  exactly one transport is added, spawned with the given executable, arguments and
  working directory, with the descriptor table of the platform and with
  \<^verbatim>\<open>os.environ\<close> in which \<^verbatim>\<open>PYTHONUNBUFFERED\<close> is \<^verbatim>\<open>1\<close>; exactly one finalizer is
  registered, for that transport and the \<^verbatim>\<open>exited\<close> of its protocol; the returned
  \<^verbatim>\<open>Deferred\<close> is pending with the one callback that yields the transport; nothing is
  printed and \<^verbatim>\<open>os.environ\<close> is unchanged.
\<close>

theorem run_service_launches:
  assumes "\<not> os_refuses_spawn w"
  shows "\<exists>d w' x.
           run_service w mt executable args cwd pl = Inr (d, w') \<and>
           processes w' = processes w @ [x] \<and>
           proc_executable x = executable \<and> proc_args x = args \<and> proc_path x = cwd \<and>
           proc_childFDs x = service_childFDs (sys_platform w) \<and>
           proc_env x = (os_environ w)(ascii ''PYTHONUNBUFFERED'' \<mapsto> ascii ''1'') \<and>
           pid x = Some (os_next_pid w) \<and> signals_sent x = [] \<and>
           magic_seen (proto x) = Some d \<and> exited (proto x) \<noteq> d \<and>
           magic_text (proto x) = mt \<and>
           print_logs (proto x) = pl \<and> output_buf (proto x) = [] \<and>
           finalizers w' =
             CleanupServiceProcess (length (processes w)) (exited (proto x)) # finalizers w \<and>
           deferred_at w' d = Deferred\<lparr>callbacks := [process_callback (length (processes w))]\<rparr> \<and>
           deferred_at w' (exited (proto x)) = Deferred \<and>
           sys_stdout w' = sys_stdout w \<and> os_environ w' = os_environ w"
proof -
  from assms run_service_Inr_iff [of w mt executable args cwd pl] obtain d w'
    where run: "run_service w mt executable args cwd pl = Inr (d, w')"
    by auto
  from run_service_new [OF run] run_service_old(3,4) [OF run] run show ?thesis
    by (simp add: launched_process_def launched_protocol_def unbuffered_env_def)
qed

theorem run_service_launches_witness:
  "\<exists>d w' x.
     run_service (new_session (ascii ''linux'') (ascii ''python3'') Map.empty)
       (ascii ''Starting reactor...'') (ascii ''python3'') [ascii ''python3'', ascii ''-m'']
       None False = Inr (d, w') \<and>
     processes w' = [x] \<and> pid x = Some 1000 \<and>
     proc_childFDs x = Some [(0, CHR ''w''), (1, CHR ''r''), (2, CHR ''r''), (3, CHR ''r'')] \<and>
     proc_env x (ascii ''PYTHONUNBUFFERED'') = Some (ascii ''1'') \<and>
     finalizers w' = [CleanupServiceProcess 0 (exited (proto x))] \<and>
     magic_seen (proto x) = Some d \<and>
     deferred_at w' d = Deferred\<lparr>callbacks := [process_callback 0]\<rparr>"
proof -
  let ?w = "new_session (ascii ''linux'') (ascii ''python3'') Map.empty"
  have "\<not> os_refuses_spawn ?w" by (simp add: new_session_def)
  from run_service_launches [OF this, of "ascii ''Starting reactor...''" "ascii ''python3''"
      "[ascii ''python3'', ascii ''-m'']" None False]
  show ?thesis
    by (elim exE conjE, intro exI conjI)
       (simp_all add: new_session_def service_childFDs_def ascii_def)
qed


text \<open>
  C21: A launch keeps the invariant of the session and leaves what was there alone. After
  \<^verbatim>\<open>run_service\<close> has returned, the invariant holds with the returned \<^verbatim>\<open>Deferred\<close> as the
  readiness \<^verbatim>\<open>Deferred\<close> of the new transport; every \<^verbatim>\<open>Deferred\<close> and every transport
  that existed is unchanged, and the returned \<^verbatim>\<open>Deferred\<close> is a new object.
\<close>

theorem run_service_keeps_invariant:
  assumes "session_inv ds w" and "run_service w mt executable args cwd pl = Inr (d, w')"
  shows "session_inv (ds @ [d]) w' \<and> launch_inv w' d (length (processes w)) \<and>
         \<not> valid_ref w d \<and>
         (\<forall>r. valid_ref w r \<longrightarrow> deferred_at w' r = deferred_at w r) \<and>
         (\<forall>q. valid_process w q \<longrightarrow> process_at w' q = process_at w q)"
  using run_service_inv [OF assms] launch_inv_new [OF assms(2)] run_service_old(1,2) [OF assms(2)]
    run_service_new(1) [OF assms(2)]
  by (simp add: valid_ref_def)

theorem run_service_keeps_invariant_witness:
  "\<exists>d w'.
     run_service (new_session (ascii ''linux'') (ascii ''python3'') Map.empty)
       (ascii ''READY'') (ascii ''python3'') [] None True = Inr (d, w') \<and>
     session_inv [d] w' \<and> launch_inv w' d 0"
proof -
  let ?w = "new_session (ascii ''linux'') (ascii ''python3'') Map.empty"
  from first_launch [of "ascii ''linux''" "ascii ''python3''" Map.empty "ascii ''READY''"
      "ascii ''python3''" "[]" None True]
  obtain w' where run: "run_service ?w (ascii ''READY'') (ascii ''python3'') [] None True = Inr (0, w')"
    by blast
  from run_service_keeps_invariant [OF session_inv_new_session run] run show ?thesis
    by (auto simp: new_session_def)
qed

text \<open>
  C28: The descriptors a launched child is read on. Everywhere but on Windows the reactor
  reads the descriptors 1, 2 and 3 of the child; on Windows, where \<^verbatim>\<open>childFDs\<close> is
  \<^verbatim>\<open>None\<close>, it reads 1 and 2 only.
\<close>

theorem run_service_descriptors:
  assumes "run_service w mt executable args cwd pl = Inr (d, w')"
  shows "readable_fds (last (processes w')) =
           (if sys_platform w = ascii ''win32'' then [1, 2] else [1, 2, 3])"
proof -
  from run_service_new(2) [OF assms]
  have "last (processes w') = launched_process w mt executable args cwd pl" by simp
  then show ?thesis by (simp add: readable_fds_launched)
qed

theorem run_service_descriptors_witness:
  "\<exists>d w'.
     run_service (new_session (ascii ''win32'') (ascii ''python.exe'') Map.empty)
       (ascii ''READY'') (ascii ''python.exe'') [] None True = Inr (d, w') \<and>
     readable_fds (last (processes w')) = [1, 2]"
proof -
  let ?w = "new_session (ascii ''win32'') (ascii ''python.exe'') Map.empty"
  from first_launch [of "ascii ''win32''" "ascii ''python.exe''" Map.empty "ascii ''READY''"
      "ascii ''python.exe''" "[]" None True]
  obtain w' where run: "run_service ?w (ascii ''READY'') (ascii ''python.exe'') [] None True =
      Inr (0, w')"
    by blast
  from run_service_descriptors [OF run] run show ?thesis
    by (auto simp: new_session_def)
qed

end
