(* ===== verification/Cleanup.thy ===== *)
theory Cleanup
  imports Run_Service
begin

text \<open>
  \<^verbatim>\<open>_cleanup_service_process\<close> (lines 108 to 126 of \<^verbatim>\<open>src/integration/util.py\<close>), the
  finalizer that \<^verbatim>\<open>run_service\<close> registers. A process that still has a \<^verbatim>\<open>pid\<close> is sent
  \<^verbatim>\<open>TERM\<close>, and \<^verbatim>\<open>pytest_twisted.blockon\<close> runs the reactor until \<^verbatim>\<open>exited\<close> has fired.
  The events the reactor will handle are an argument of the model: \<open>blockon\<close> consumes
  them one by one and yields \<open>None\<close> when they run out before the \<^verbatim>\<open>Deferred\<close> fires,
  which is the call that never returns. The theory shows when the cleanup returns, what
  it has done then, and that it raises nothing.
\<close>

section \<open>Waiting for a \<^verbatim>\<open>Deferred\<close>\<close>

text \<open>
  \<^verbatim>\<open>pytest_twisted.blockon(d)\<close>: the result of \<open>d\<close> once it has fired, the reactor running
  until then. The value is the outcome, the state and the events that are left.
\<close>

fun blockon ::
  "'a session_scheme \<Rightarrow> ref \<Rightarrow> os_event list \<Rightarrow>
   (pyval outcome \<times> 'a session_scheme \<times> os_event list) option" where
  "blockon w d [] =
     (case result (deferred_at w d) of None \<Rightarrow> None | Some r \<Rightarrow> Some (r, w, []))"
| "blockon w d (e # es) =
     (case result (deferred_at w d) of
        None \<Rightarrow> blockon (reactor_step w e) d es
      | Some r \<Rightarrow> Some (r, w, e # es))"

section \<open>The finalizer\<close>

text \<open>The three lines the finalizer prints.\<close>

definition signaling_message :: "nat \<Rightarrow> str" where
  "signaling_message n = ascii ''signaling '' @ str_of_nat n @ ascii '' with TERM''"

definition signaled_message :: str where
  "signaled_message = ascii ''signaled, blocking on exit''"

definition goodbye_message :: str where
  "goodbye_message = ascii ''exited, goodbye''"

text \<open>
  \<^verbatim>\<open>_cleanup_service_process(process, exited)\<close>. The \<^verbatim>\<open>try\<close> block is the body; of what it
  raises, \<^verbatim>\<open>ProcessExitedAlready\<close> is swallowed, with the state as it was at the raise,
  and everything else propagates. The result is \<open>None\<close> when \<^verbatim>\<open>blockon\<close> does not return.
\<close>

definition cleanup_service_process ::
  "'a session_scheme \<Rightarrow> ref \<Rightarrow> ref \<Rightarrow> os_event list \<Rightarrow>
   ('a session_scheme \<times> os_event list) result option" where
  "cleanup_service_process w process exited_d es =
     (case pid (process_at w process) of
        None \<Rightarrow> Some (Inr (print_stdout w goodbye_message, es))
      | Some n \<Rightarrow>
          (case signalProcess (print_stdout w (signaling_message n)) process (ascii ''TERM'') of
             Inl e \<Rightarrow>
               if e = ProcessExitedAlready
               then Some (Inr (print_stdout w (signaling_message n), es))
               else Some (Inl e)
           | Inr w2 \<Rightarrow>
               (case blockon (print_stdout w2 signaled_message) exited_d es of
                  None \<Rightarrow> None
                | Some (Failure e, w4, es') \<Rightarrow>
                    if e = ProcessExitedAlready then Some (Inr (w4, es')) else Some (Inl e)
                | Some (Success v, w4, es') \<Rightarrow>
                    Some (Inr (print_stdout w4 goodbye_message, es')))))"

text \<open>A finalizer is called with the arguments \<^verbatim>\<open>partial\<close> has stored.\<close>

fun run_finalizer ::
  "'a session_scheme \<Rightarrow> finalizer \<Rightarrow> os_event list \<Rightarrow>
   ('a session_scheme \<times> os_event list) result option" where
  "run_finalizer w (CleanupServiceProcess process exited_d) es =
     cleanup_service_process w process exited_d es"

section \<open>The exit of a transport in a sequence of events\<close>

fun is_exit :: "ref \<Rightarrow> os_event \<Rightarrow> bool" where
  "is_exit p (ChildExited q reason) \<longleftrightarrow> q = p"
| "is_exit p (ChildWrote q childFD data) \<longleftrightarrow> False"
| "is_exit p (ProcessVanished q) \<longleftrightarrow> False"

text \<open>The events up to and including the first exit of \<open>p\<close>, and those after it.\<close>

definition until_exit :: "ref \<Rightarrow> os_event list \<Rightarrow> os_event list" where
  "until_exit p es =
     takeWhile (\<lambda>e. \<not> is_exit p e) es @ take 1 (dropWhile (\<lambda>e. \<not> is_exit p e) es)"

definition after_exit :: "ref \<Rightarrow> os_event list \<Rightarrow> os_event list" where
  "after_exit p es = drop 1 (dropWhile (\<lambda>e. \<not> is_exit p e) es)"

text \<open>
  The state in which the finalizer waits: the first line is printed, \<^verbatim>\<open>TERM\<close> is
  delivered to the process with the id \<open>n\<close>, the second line is printed.
\<close>

definition cleanup_blocked :: "'a session_scheme \<Rightarrow> ref \<Rightarrow> nat \<Rightarrow> 'a session_scheme" where
  "cleanup_blocked w p n =
     print_stdout
       (set_process (print_stdout w (signaling_message n)) p
          ((process_at w p)\<lparr>signals_sent := signals_sent (process_at w p) @ [ascii ''TERM'']\<rparr>))
       signaled_message"

lemmas cleanup_ops [fow_ops] =
  cleanup_service_process_def signaling_message_def signaled_message_def goodbye_message_def

lemma until_exit_simps [simp]:
  "until_exit p [] = []"
  "until_exit p (e # es) = (if is_exit p e then [e] else e # until_exit p es)"
  by (simp_all add: until_exit_def)

lemma after_exit_simps [simp]:
  "after_exit p [] = []"
  "after_exit p (e # es) = (if is_exit p e then es else after_exit p es)"
  by (simp_all add: after_exit_def)

lemma until_after_exit [simp]: "until_exit p es @ after_exit p es = es"
  by (induction es) simp_all

lemma exit_after_writes [simp]:
  "until_exit p (map (ChildWrote q childFD) chunks @ es) =
     map (ChildWrote q childFD) chunks @ until_exit p es"
  "after_exit p (map (ChildWrote q childFD) chunks @ es) = after_exit p es"
  by (induction chunks) simp_all

lemma is_exit_iff: "is_exit p e \<longleftrightarrow> (\<exists>reason. e = ChildExited p reason)"
  by (cases e) auto

section \<open>\<^verbatim>\<open>blockon\<close> in general\<close>

lemma blockon_fired:
  "result (deferred_at w d) = Some r \<Longrightarrow> blockon w d es = Some (r, w, es)"
  by (cases es) simp_all

lemma blockon_pending:
  "result (deferred_at w d) = None \<Longrightarrow> blockon w d [] = None"
  "result (deferred_at w d) = None \<Longrightarrow>
   blockon w d (e # es) = blockon (reactor_step w e) d es"
  by simp_all

text \<open>
  A call that returns has run the reactor on a prefix of the events, and its value is
  the result the \<^verbatim>\<open>Deferred\<close> has then; a call that does not return has run it on all
  of them and the \<^verbatim>\<open>Deferred\<close> is still pending.
\<close>

lemma blockon_Some:
  "blockon w d es = Some (r, w', es') \<Longrightarrow>
   \<exists>es0. es = es0 @ es' \<and> w' = reactor_run w es0 \<and> result (deferred_at w' d) = Some r"
proof (induction es arbitrary: w)
  case Nil
  then show ?case by (auto split: option.splits)
next
  case (Cons e es)
  show ?case
  proof (cases "result (deferred_at w d)")
    case None
    with Cons.prems have "blockon (reactor_step w e) d es = Some (r, w', es')" by simp
    from Cons.IH [OF this] obtain es0 where "es = es0 @ es'"
      and "w' = reactor_run (reactor_step w e) es0" and "result (deferred_at w' d) = Some r"
      by blast
    then show ?thesis by (intro exI [of _ "e # es0"]) simp
  next
    case (Some r')
    with Cons.prems show ?thesis by (intro exI [of _ "[]"]) simp
  qed
qed

lemma blockon_None:
  "blockon w d es = None \<Longrightarrow> result (deferred_at (reactor_run w es) d) = None"
  by (induction es arbitrary: w) (auto split: option.splits)

text \<open>
  When the \<^verbatim>\<open>Deferred\<close> has fired after the events \<open>es1\<close>, the call returns within
  them.
\<close>

lemma blockon_within:
  assumes "result (deferred_at (reactor_run w es1) d) \<noteq> None"
  shows "\<exists>k r. k \<le> length es1 \<and>
           blockon w d (es1 @ es2) = Some (r, reactor_run w (take k es1), drop k es1 @ es2) \<and>
           result (deferred_at (reactor_run w (take k es1)) d) = Some r"
  using assms
proof (induction es1 arbitrary: w)
  case Nil
  then show ?case by (auto simp: blockon_fired)
next
  case (Cons e es1)
  show ?case
  proof (cases "result (deferred_at w d)")
    case None
    from Cons.prems have "result (deferred_at (reactor_run (reactor_step w e) es1) d) \<noteq> None"
      by simp
    from Cons.IH [OF this] obtain k r where "k \<le> length es1"
      and "blockon (reactor_step w e) d (es1 @ es2) =
           Some (r, reactor_run (reactor_step w e) (take k es1), drop k es1 @ es2)"
      and "result (deferred_at (reactor_run (reactor_step w e) (take k es1)) d) = Some r"
      by blast
    with None show ?thesis by (intro exI [of _ "Suc k"] exI [of _ r]) simp
  next
    case (Some r)
    then show ?thesis by (intro exI [of _ 0] exI [of _ r]) simp
  qed
qed

section \<open>When \<^verbatim>\<open>blockon\<close> returns\<close>

text \<open>
  Waiting for the \<^verbatim>\<open>exited\<close> of a transport: it returns at once when the transport has
  no \<^verbatim>\<open>pid\<close>; else it returns right after the first exit of the transport among the
  events, and it does not return when there is none.
\<close>

lemma exit_deferred_facts:
  fixes w :: "'a session_scheme"
  assumes "session_inv ds w" and "valid_process w p"
  shows "deferred_wf (deferred_at w (exited (proto (process_at w p))))"
    and "exit_inv (deferred_at w (exited (proto (process_at w p))))"
    and "pid (process_at w p) = None \<longleftrightarrow>
      called (deferred_at w (exited (proto (process_at w p))))"
  using assms
  by (auto dest: session_inv_protocol protocol_inv_refs session_inv_exit session_inv_pid
           intro: store_wf_at)

lemma blockon_exited:
  fixes w :: "'a session_scheme"
  assumes "session_inv ds w" and "valid_process w p" and "feasible w es"
  shows "blockon w (exited (proto (process_at w p))) es =
     (if pid (process_at w p) = None then Some (Success PyNone, w, es)
      else if list_ex (is_exit p) es
        then Some (Success PyNone, reactor_run w (until_exit p es), after_exit p es)
        else None)"
  using assms
proof (induction es arbitrary: w)
  case Nil
  from exit_deferred_facts [OF Nil(1,2)] show ?case
    by (auto simp: exit_inv_def succeeded_def deferred_wf_def split: option.splits if_splits)
next
  case (Cons e es)
  let ?ex = "exited (proto (process_at w p))"
  let ?w' = "reactor_step w e"
  note wf = exit_deferred_facts(1) [OF Cons.prems(1,2)]
    and ex = exit_deferred_facts(2) [OF Cons.prems(1,2)]
    and pid = exit_deferred_facts(3) [OF Cons.prems(1,2)]
  from Cons.prems have en: "enabled w e" and rest: "feasible ?w' es" by simp_all
  from Cons.prems(1) en have inv': "session_inv ds ?w'" by (rule reactor_step_inv)
  from Cons.prems(1,2) en have valid': "valid_process ?w' p"
    by (simp add: reactor_step_valid_process)
  from Cons.prems(1) en have ref': "exited (proto (process_at ?w' p)) = ?ex"
    by (rule reactor_step_exited_ref)
  from Cons.prems(1,2) en have pid': "pid (process_at ?w' p) =
      (if is_exit p e then None else pid (process_at w p))"
    by (simp add: reactor_step_pid is_exit_iff)
  show ?case
  proof (cases "pid (process_at w p) = None")
    case True
    with pid wf ex show ?thesis
      by (auto simp: exit_inv_def succeeded_def split: option.splits)
  next
    case False
    with pid wf have "result (deferred_at w ?ex) = None" by (simp add: deferred_wf_def)
    then have step: "blockon w ?ex (e # es) = blockon ?w' (exited (proto (process_at ?w' p))) es"
      by (simp add: ref')
    from False obtain n where n: "pid (process_at w p) = Some n" by auto
    from pid' Cons.IH [OF inv' valid' rest] step n show ?thesis
      by (cases "is_exit p e") simp_all
  qed
qed

section \<open>Signalling\<close>

lemma signalProcess_inv:
  assumes inv: "session_inv ds w" and valid: "valid_process w p"
    and run: "signalProcess w p sig = Inr w'"
  shows "session_inv ds w'"
proof -
  let ?x = "(process_at w p)\<lparr>signals_sent := signals_sent (process_at w p) @ [sig]\<rparr>"
  from run have w': "w' = set_process w p ?x"
    by (auto simp: signalProcess_def split: option.splits if_splits)
  from valid have "touches_process w p (set_process w p ?x)"
    by (intro touches_process_set) simp_all
  moreover from session_inv_process [OF inv valid] valid
  have "process_inv (set_process w p ?x) (ds ! p) (process_at (set_process w p ?x) p)"
    by (simp add: process_inv_def process_at_set_process)
  moreover from inv have "store_wf (set_process w p ?x)" by (simp add: session_inv_def)
  ultimately show ?thesis unfolding w' by (rule session_inv_touched [OF inv valid])
qed

lemma cleanup_blocked_signal:
  assumes "pid (process_at w p) = Some n" and "\<not> os_gone (process_at w p)"
  shows "signalProcess (print_stdout w (signaling_message n)) p (ascii ''TERM'') =
         Inr (set_process (print_stdout w (signaling_message n)) p
               ((process_at w p)\<lparr>signals_sent := signals_sent (process_at w p) @ [ascii ''TERM'']\<rparr>))"
  using assms by (simp add: signalProcess_def)

lemma cleanup_blocked_facts:
  assumes "valid_process w p"
  shows "process_at (cleanup_blocked w p n) q =
           (if q = p
            then (process_at w p)\<lparr>signals_sent := signals_sent (process_at w p) @ [ascii ''TERM'']\<rparr>
            else process_at w q)"
    and "valid_process (cleanup_blocked w p n) q = valid_process w q"
    and "deferred_at (cleanup_blocked w p n) r = deferred_at w r"
    and "sys_stdout (cleanup_blocked w p n) =
           sys_stdout w @ signaling_message n @ [10] @ signaled_message @ [10]"
    and "finalizers (cleanup_blocked w p n) = finalizers w"
  using assms by (simp_all add: cleanup_blocked_def process_at_set_process)

lemma cleanup_blocked_inv:
  assumes "session_inv ds w" and "valid_process w p"
    and "pid (process_at w p) = Some n" and "\<not> os_gone (process_at w p)"
  shows "session_inv ds (cleanup_blocked w p n)"
proof -
  from assms(1) have "session_inv ds (print_stdout w (signaling_message n))" by simp
  moreover from assms(2) have "valid_process (print_stdout w (signaling_message n)) p" by simp
  ultimately have "session_inv ds (set_process (print_stdout w (signaling_message n)) p
      ((process_at w p)\<lparr>signals_sent := signals_sent (process_at w p) @ [ascii ''TERM'']\<rparr>))"
    using cleanup_blocked_signal [OF assms(3,4)] by (rule signalProcess_inv)
  then show ?thesis by (simp add: cleanup_blocked_def)
qed

section \<open>What the finalizer does\<close>

lemma cleanup_gone:
  "pid (process_at w p) = None \<Longrightarrow>
   cleanup_service_process w p ex es = Some (Inr (print_stdout w goodbye_message, es))"
  by (simp add: cleanup_service_process_def)

lemma cleanup_race:
  "pid (process_at w p) = Some n \<Longrightarrow> os_gone (process_at w p) \<Longrightarrow>
   cleanup_service_process w p ex es = Some (Inr (print_stdout w (signaling_message n), es))"
  by (simp add: cleanup_service_process_def signalProcess_def)

text \<open>The finalizer on a live process, in terms of the events.\<close>

lemma cleanup_waits:
  fixes w :: "'a session_scheme"
  assumes inv: "session_inv ds w" and valid: "valid_process w p"
    and alive: "pid (process_at w p) = Some n" "\<not> os_gone (process_at w p)"
    and feasible: "feasible (cleanup_blocked w p n) es"
  shows "cleanup_service_process w p (exited (proto (process_at w p))) es =
     (if list_ex (is_exit p) es
      then Some (Inr (print_stdout (reactor_run (cleanup_blocked w p n) (until_exit p es))
                        goodbye_message, after_exit p es))
      else None)"
proof -
  let ?b = "cleanup_blocked w p n"
  from inv valid alive have "session_inv ds ?b" by (rule cleanup_blocked_inv)
  moreover from valid have "valid_process ?b p" by (simp add: cleanup_blocked_facts)
  ultimately have "blockon ?b (exited (proto (process_at ?b p))) es =
      (if pid (process_at ?b p) = None then Some (Success PyNone, ?b, es)
       else if list_ex (is_exit p) es
         then Some (Success PyNone, reactor_run ?b (until_exit p es), after_exit p es)
         else None)"
    using feasible by (rule blockon_exited)
  moreover from valid alive have "pid (process_at ?b p) = Some n"
    and "exited (proto (process_at ?b p)) = exited (proto (process_at w p))"
    by (simp_all add: cleanup_blocked_facts)
  ultimately have "blockon ?b (exited (proto (process_at w p))) es =
      (if list_ex (is_exit p) es
       then Some (Success PyNone, reactor_run ?b (until_exit p es), after_exit p es) else None)"
    by simp
  then show ?thesis
    unfolding cleanup_blocked_def cleanup_service_process_def
    using alive by (simp add: cleanup_blocked_signal)
qed

text \<open>The state in which a finalizer that waited returns.\<close>

lemma feasible_until_exit: "feasible w es \<Longrightarrow> feasible w (until_exit p es)"
  using feasible_append [of w "until_exit p es" "after_exit p es"] by simp

lemma reactor_run_until_exit_pid:
  fixes w :: "'a session_scheme"
  assumes "session_inv ds w" and "valid_process w p" and "feasible w es"
    and "list_ex (is_exit p) es"
  shows "pid (process_at (reactor_run w (until_exit p es)) p) = None"
  using assms
proof (induction es arbitrary: w)
  case (Cons e es)
  show ?case
  proof (cases "is_exit p e")
    case True
    with Cons.prems show ?thesis by (simp add: reactor_step_pid is_exit_iff)
  next
    case False
    with Cons.prems Cons.IH [of "reactor_step w e"] show ?thesis
      by (simp add: reactor_step_inv reactor_step_valid_process)
  qed
qed simp

lemma cleanup_waited_state:
  fixes w :: "'a session_scheme"
  assumes inv: "session_inv ds w" and valid: "valid_process w p"
    and alive: "pid (process_at w p) = Some n" "\<not> os_gone (process_at w p)"
    and feasible: "feasible (cleanup_blocked w p n) es" and exit: "list_ex (is_exit p) es"
  defines "w1 \<equiv> reactor_run (cleanup_blocked w p n) (until_exit p es)"
  shows "session_inv ds w1" and "valid_process w1 p" and "pid (process_at w1 p) = None"
    and "signals_sent (process_at w1 p) = signals_sent (process_at w p) @ [ascii ''TERM'']"
    and "exited (proto (process_at w1 p)) = exited (proto (process_at w p))"
    and "prefix (sys_stdout w @ signaling_message n @ [10] @ signaled_message @ [10])
           (sys_stdout w1)"
proof -
  let ?b = "cleanup_blocked w p n"
  from inv valid alive have binv: "session_inv ds ?b" by (rule cleanup_blocked_inv)
  from valid have bvalid: "valid_process ?b p" by (simp add: cleanup_blocked_facts)
  from feasible have f: "feasible ?b (until_exit p es)" by (rule feasible_until_exit)
  note facts = reactor_run_facts [OF binv f]
  from binv f show "session_inv ds w1" unfolding w1_def by (rule reactor_run_inv)
  from facts(1) bvalid show "valid_process w1 p" by (simp add: w1_def)
  from binv bvalid feasible exit show "pid (process_at w1 p) = None"
    unfolding w1_def by (rule reactor_run_until_exit_pid)
  from facts(5) [OF bvalid] valid
  show "signals_sent (process_at w1 p) = signals_sent (process_at w p) @ [ascii ''TERM'']"
    by (simp add: w1_def cleanup_blocked_facts)
  from facts(2) [of p] valid
  show "exited (proto (process_at w1 p)) = exited (proto (process_at w p))"
    by (simp add: w1_def cleanup_blocked_facts)
  from facts(4) valid
  show "prefix (sys_stdout w @ signaling_message n @ [10] @ signaled_message @ [10])
          (sys_stdout w1)"
    by (simp add: w1_def cleanup_blocked_facts)
qed

section \<open>Waiting for readiness\<close>

text \<open>
  Waiting for the \<^verbatim>\<open>Deferred\<close> that \<^verbatim>\<open>run_service\<close> returned. When the child writes
  chunks to descriptor 1 that decode and complete the magic text, the wait ends within
  these chunks and its value is the transport.
\<close>

lemma blockon_ready:
  fixes w :: "'a session_scheme"
  assumes inv: "session_inv ds w" and valid: "valid_process w p"
    and launch: "launch_inv w (ds ! p) p" and pending: "\<not> called (deferred_at w (ds ! p))"
    and alive: "pid (process_at w p) \<noteq> None" and fd: "1 \<in> set (readable_fds (process_at w p))"
    and dec: "list_all2 (\<lambda>c s. decode_utf8 c = Inr s) chunks texts"
    and marker: "marker_arrives (proto (process_at w p)) texts"
  shows "\<exists>k \<le> length chunks.
           blockon w (ds ! p) (map (ChildWrote p 1) chunks @ rest) =
             Some (Success (PyProcess p),
                   reactor_run w (map (ChildWrote p 1) (take k chunks)),
                   map (ChildWrote p 1) (drop k chunks) @ rest)"
proof -
  let ?d = "ds ! p" and ?self = "proto (process_at w p)"
  let ?run = "\<lambda>cs. reactor_run w (map (ChildWrote p 1) cs)"
  from inv valid have pinv: "protocol_inv ?d ?self w" by (rule session_inv_protocol)
  with pending have seen: "magic_seen ?self = Some ?d"
    using protocol_inv_attr [of ?d ?self w] by (auto simp: protocol_inv_settled)
  from pinv have ref: "valid_ref w ?d" and wf: "deferred_wf (deferred_at w ?d)"
    by (auto dest: protocol_inv_refs intro: store_wf_at)
  with pending have none: "result (deferred_at w ?d) = None" by (simp add: deferred_wf_def)
  have fed: "fed ?d ?self w ts (proto (process_at (?run cs) p)) (?run cs)"
    if "list_all2 (\<lambda>c s. decode_utf8 c = Inr s) cs ts" for cs ts
    using reactor_run_stdout [OF that inv valid alive fd] by simp
  from fed [OF dec] seen marker ref
  have "deferred_at (?run chunks) ?d = fired (deferred_at w ?d) (Success PyProtocol)"
    by (simp add: fed_def deferred_at_def valid_ref_def)
  then have "result (deferred_at (?run chunks) ?d) \<noteq> None" by simp
  from blockon_within [OF this, of rest] obtain k r where k: "k \<le> length chunks"
    and run: "blockon w ?d (map (ChildWrote p 1) chunks @ rest) =
        Some (r, ?run (take k chunks), map (ChildWrote p 1) (drop k chunks) @ rest)"
    and r: "result (deferred_at (?run (take k chunks)) ?d) = Some r"
    by (auto simp: take_map drop_map)
  from dec have "list_all2 (\<lambda>c s. decode_utf8 c = Inr s) (take k chunks) (take k texts)"
    by (rule list_all2_takeI)
  from fed [OF this] r none ref
  have "deferred_at (?run (take k chunks)) ?d = fired (deferred_at w ?d) (Success PyProtocol)"
    by (auto simp: fed_def deferred_at_def valid_ref_def split: if_splits)
  with r launch_inv_fired(1) [OF launch pending] have "r = Success (PyProcess p)"
    by (simp add: succeeded_def)
  with k run show ?thesis by blast
qed

text \<open>When the child exits while readiness is pending, the wait ends with the failure.\<close>

lemma blockon_failed:
  fixes w :: "'a session_scheme"
  assumes inv: "session_inv ds w" and valid: "valid_process w p"
    and launch: "launch_inv w (ds ! p) p" and pending: "\<not> called (deferred_at w (ds ! p))"
    and alive: "pid (process_at w p) \<noteq> None"
  shows "blockon w (ds ! p) (ChildExited p reason # rest) =
           Some (Failure service_failed, reactor_step w (ChildExited p reason), rest)"
proof -
  let ?e = "ChildExited p reason" and ?d = "ds ! p"
  from valid alive have en: "enabled w ?e" by simp
  with inv obtain w' where step: "react w ?e = Inr w'"
    using react_childExited_returns by blast
  then have w': "reactor_step w ?e = w'" by (simp add: reactor_step_def)
  from inv en step have inv': "session_inv ds w'" by (rule react_inv)
  from react_process(2) [OF valid en step] react_valid_process [OF en step, of p] valid
  have "pid (process_at w' p) = None" "valid_process w' p" by simp_all
  with inv' have "called (deferred_at w' ?d)"
    using session_inv_pid [of ds w' p] session_inv_protocol [of ds w' p]
    by (auto dest: protocol_inv_exited_settled)
  with react_readiness [OF inv valid en step] pending
  have "deferred_at w' ?d = fired (deferred_at w ?d) (Failure service_failed)" by auto
  with launch_inv_fired(2) [OF launch pending]
  have "result (deferred_at w' ?d) = Some (Failure service_failed)"
    by (simp add: failed_def)
  moreover from inv valid pending have "result (deferred_at w ?d) = None"
    using store_wf_at [of w ?d]
    by (auto dest!: session_inv_protocol protocol_inv_refs simp: deferred_wf_def)
  ultimately show ?thesis by (simp add: w' blockon_fired)
qed

section \<open>A session with one service\<close>

text \<open>
  The session right after its first launch, as the finalizer finds it: the transport 0
  has the process id 1000 and the \<^verbatim>\<open>Deferred\<close>s 0 and 1, and the exit of the child can
  be the next event once the finalizer waits.
\<close>

lemma one_service:
  "\<exists>w. run_service (new_session platform_name python environ) mt executable args cwd pl =
          Inr (0, w) \<and>
        session_inv [0] w \<and> launch_inv w 0 0 \<and> valid_process w 0 \<and>
        pid (process_at w 0) = Some 1000 \<and> \<not> os_gone (process_at w 0) \<and>
        signals_sent (process_at w 0) = [] \<and> exited (proto (process_at w 0)) = 1 \<and>
        sys_stdout w = [] \<and> \<not> called (deferred_at w 0) \<and>
        feasible (cleanup_blocked w 0 1000) [ChildExited 0 reason] \<and>
        feasible (cleanup_blocked w 0 1000) [ChildWrote 0 1 data]"
proof -
  from first_launch [of platform_name python environ mt executable args cwd pl] obtain w
    where w: "run_service (new_session platform_name python environ) mt executable args cwd pl =
        Inr (0, w)" "session_inv [0] w" "launch_inv w 0 0" "valid_process w 0"
      "process_at w 0 = launched_process (new_session platform_name python environ)
                           mt executable args cwd pl"
      "pid (process_at w 0) = Some 1000" "exited (proto (process_at w 0)) = 1"
      "sys_stdout w = []" "\<not> called (deferred_at w 0)"
    by blast
  from w(5) have "1 \<in> set (readable_fds (process_at w 0))"
    by (simp add: readable_fds_launched)
  with w(4) have "1 \<in> set (readable_fds (process_at (cleanup_blocked w 0 1000) 0))"
    by (simp add: cleanup_blocked_facts readable_fds_def)
  with w show ?thesis
    by (intro exI [of _ w]) (simp add: cleanup_blocked_facts)
qed

section \<open>Properties of the finalizer\<close>

text \<open>
  C16: A process that has exited is not signalled. When the \<^verbatim>\<open>exited\<close> \<^verbatim>\<open>Deferred\<close> of the
  transport has fired, \<^verbatim>\<open>_cleanup_service_process\<close> returns at once: no event is
  handled, no transport and no \<^verbatim>\<open>Deferred\<close> changes (so no signal is sent), and the one
  line \<^verbatim>\<open>exited, goodbye\<close> is printed.
\<close>

theorem cleanup_of_exited_process:
  fixes w :: "'a session_scheme"
  assumes "session_inv ds w" and "valid_process w p"
    and "called (deferred_at w (exited (proto (process_at w p))))"
  shows "\<exists>w'. cleanup_service_process w p (exited (proto (process_at w p))) es =
                 Some (Inr (w', es)) \<and>
              processes w' = processes w \<and> deferreds w' = deferreds w \<and>
              sys_stdout w' = sys_stdout w @ goodbye_message @ [10]"
proof -
  from assms have "pid (process_at w p) = None" by (simp add: session_inv_pid)
  then show ?thesis by (simp add: cleanup_gone)
qed

theorem cleanup_of_exited_process_witness:
  "\<exists>w w2 w'.
     run_service (new_session (ascii ''linux'') (ascii ''python3'') Map.empty)
       (ascii ''READY'') (ascii ''python3'') [] None False = Inr (0, w) \<and>
     react w (ChildExited 0 ProcessDone) = Inr w2 \<and>
     cleanup_service_process w2 0 1 [] = Some (Inr (w', [])) \<and>
     processes w' = processes w2 \<and> sys_stdout w' = sys_stdout w2 @ goodbye_message @ [10]"
proof -
  let ?w0 = "new_session (ascii ''linux'') (ascii ''python3'') Map.empty"
  from one_service [of "ascii ''linux''" "ascii ''python3''" Map.empty "ascii ''READY''"
      "ascii ''python3''" "[]" None False "ProcessDone" "[]"]
  obtain w where run: "run_service ?w0 (ascii ''READY'') (ascii ''python3'') [] None False = Inr (0, w)"
    and inv: "session_inv [0] w" and valid: "valid_process w 0"
    and alive: "pid (process_at w 0) = Some 1000" "\<not> os_gone (process_at w 0)"
    and attrs: "signals_sent (process_at w 0) = []" "exited (proto (process_at w 0)) = 1"
      "sys_stdout w = []" "\<not> called (deferred_at w 0)" "launch_inv w 0 0"
    and exit: "feasible (cleanup_blocked w 0 1000) [ChildExited 0 ProcessDone]"
    and data: "feasible (cleanup_blocked w 0 1000) [ChildWrote 0 1 []]"
    by blast
  from exit valid have en: "enabled w (ChildExited 0 ProcessDone)"
    by (simp add: cleanup_blocked_facts)
  with inv obtain w2 where step: "react w (ChildExited 0 ProcessDone) = Inr w2"
    using react_childExited_returns by blast
  from inv en step have inv2: "session_inv [0] w2" by (rule react_inv)
  from react_process(2) [OF valid en step] react_valid_process [OF en step, of 0] valid
  have gone: "pid (process_at w2 0) = None" "valid_process w2 0" by simp_all
  from react_touches [OF step] valid attrs have same: "exited (proto (process_at w2 0)) = 1"
    by (simp add: touches_process_def)
  from inv2 gone have "called (deferred_at w2 (exited (proto (process_at w2 0))))"
    by (simp add: session_inv_pid [symmetric])
  from cleanup_of_exited_process [OF inv2 gone(2) this, of "[]"] run step same
  show ?thesis by auto
qed

text \<open>
  C7: The finalizer returns exactly if the child exits. Called on a process that has
  its \<^verbatim>\<open>pid\<close> and that the operating system knows, with \<open>es\<close> the events the reactor
  will handle while \<^verbatim>\<open>blockon\<close> waits, \<^verbatim>\<open>_cleanup_service_process\<close> returns if and only
  if the exit of that process is among the events; a child that ignores \<^verbatim>\<open>TERM\<close> makes
  the finalizer wait for ever.
\<close>

theorem cleanup_returns_iff_child_exits:
  fixes w :: "'a session_scheme"
  assumes "session_inv ds w" and "valid_process w p"
    and "pid (process_at w p) = Some n" and "\<not> os_gone (process_at w p)"
    and "feasible (cleanup_blocked w p n) es"
  shows "(\<exists>r. cleanup_service_process w p (exited (proto (process_at w p))) es = Some r) \<longleftrightarrow>
         list_ex (is_exit p) es"
  using cleanup_waits [OF assms] by simp

theorem cleanup_returns_iff_child_exits_witness:
  "\<exists>w. run_service (new_session (ascii ''linux'') (ascii ''python3'') Map.empty)
       (ascii ''READY'') (ascii ''python3'') [] None False = Inr (0, w) \<and>
     (\<exists>r. cleanup_service_process w 0 1 [ChildExited 0 ProcessDone] = Some r) \<and>
     cleanup_service_process w 0 1 [ChildWrote 0 1 (ascii_bytes ''bye'')] = None"
proof -
  let ?w0 = "new_session (ascii ''linux'') (ascii ''python3'') Map.empty"
  from one_service [of "ascii ''linux''" "ascii ''python3''" Map.empty "ascii ''READY''"
      "ascii ''python3''" "[]" None False "ProcessDone" "ascii_bytes ''bye''"]
  obtain w where run: "run_service ?w0 (ascii ''READY'') (ascii ''python3'') [] None False = Inr (0, w)"
    and inv: "session_inv [0] w" and valid: "valid_process w 0"
    and alive: "pid (process_at w 0) = Some 1000" "\<not> os_gone (process_at w 0)"
    and attrs: "signals_sent (process_at w 0) = []" "exited (proto (process_at w 0)) = 1"
      "sys_stdout w = []" "\<not> called (deferred_at w 0)" "launch_inv w 0 0"
    and exit: "feasible (cleanup_blocked w 0 1000) [ChildExited 0 ProcessDone]"
    and data: "feasible (cleanup_blocked w 0 1000) [ChildWrote 0 1 (ascii_bytes ''bye'')]"
    by blast
  from cleanup_returns_iff_child_exits [OF inv valid alive exit]
    cleanup_returns_iff_child_exits [OF inv valid alive data] run attrs(2)
  show ?thesis by (auto simp: option.exhaust_sel)
qed

text \<open>
  C3: What the finalizer has done when it returns. Called on a live process, a call
  that returns has not raised; it has printed the line \<^verbatim>\<open>signaling <pid> with TERM\<close>,
  delivered the one signal \<^verbatim>\<open>TERM\<close>, printed \<^verbatim>\<open>signaled, blocking on exit\<close>, let the
  reactor handle the events up to and including the exit of the process and no event
  after it, and printed \<^verbatim>\<open>exited, goodbye\<close> last. Then the transport has no \<^verbatim>\<open>pid\<close>,
  \<^verbatim>\<open>exited\<close> and the readiness \<^verbatim>\<open>Deferred\<close> have fired, and the invariant of the
  session holds.
\<close>

theorem cleanup_signals_then_waits:
  fixes w :: "'a session_scheme"
  assumes "session_inv ds w" and "valid_process w p"
    and "pid (process_at w p) = Some n" and "\<not> os_gone (process_at w p)"
    and "feasible (cleanup_blocked w p n) es"
    and "cleanup_service_process w p (exited (proto (process_at w p))) es = Some r"
  shows "\<exists>w'. r = Inr (w', after_exit p es) \<and> session_inv ds w' \<and>
           signals_sent (process_at w' p) = signals_sent (process_at w p) @ [ascii ''TERM''] \<and>
           pid (process_at w' p) = None \<and>
           called (deferred_at w' (exited (proto (process_at w p)))) \<and>
           called (deferred_at w' (ds ! p)) \<and>
           prefix (sys_stdout w @ signaling_message n @ [10] @ signaled_message @ [10])
             (sys_stdout w') \<and>
           suffix (goodbye_message @ [10]) (sys_stdout w')"
proof -
  let ?w1 = "reactor_run (cleanup_blocked w p n) (until_exit p es)"
  from cleanup_waits [OF assms(1-5)] assms(6) have exit: "list_ex (is_exit p) es"
    and r: "r = Inr (print_stdout ?w1 goodbye_message, after_exit p es)"
    by (auto split: if_splits)
  note st = cleanup_waited_state [OF assms(1-5) exit]
  from st(1,2,3,5) have fired: "called (deferred_at ?w1 (exited (proto (process_at w p))))"
    using session_inv_pid [of ds ?w1 p] by simp
  with st(1,2,5) have "called (deferred_at ?w1 (ds ! p))"
    using session_inv_protocol [of ds ?w1 p] by (auto dest: protocol_inv_exited_settled)
  with st fired r show ?thesis
    by (auto simp: suffix_def intro: prefix_order.trans)
qed

theorem cleanup_signals_then_waits_witness:
  "\<exists>w w'. run_service (new_session (ascii ''linux'') (ascii ''python3'') Map.empty)
       (ascii ''READY'') (ascii ''python3'') [] None False = Inr (0, w) \<and>
     cleanup_service_process w 0 1 [ChildExited 0 (ProcessTerminated None (Some 15))] =
       Some (Inr (w', [])) \<and>
     signals_sent (process_at w' 0) = [ascii ''TERM''] \<and> pid (process_at w' 0) = None \<and>
     called (deferred_at w' 1) \<and> called (deferred_at w' 0)"
proof -
  let ?w0 = "new_session (ascii ''linux'') (ascii ''python3'') Map.empty"
  from one_service [of "ascii ''linux''" "ascii ''python3''" Map.empty "ascii ''READY''"
      "ascii ''python3''" "[]" None False "ProcessTerminated None (Some 15)" "[]"]
  obtain w where run: "run_service ?w0 (ascii ''READY'') (ascii ''python3'') [] None False = Inr (0, w)"
    and inv: "session_inv [0] w" and valid: "valid_process w 0"
    and alive: "pid (process_at w 0) = Some 1000" "\<not> os_gone (process_at w 0)"
    and attrs: "signals_sent (process_at w 0) = []" "exited (proto (process_at w 0)) = 1"
      "sys_stdout w = []" "\<not> called (deferred_at w 0)" "launch_inv w 0 0"
    and exit: "feasible (cleanup_blocked w 0 1000) [ChildExited 0 (ProcessTerminated None (Some 15))]"
    and data: "feasible (cleanup_blocked w 0 1000) [ChildWrote 0 1 []]"
    by blast
  from cleanup_waits [OF inv valid alive exit] attrs(2) obtain r
    where r: "cleanup_service_process w 0 1 [ChildExited 0 (ProcessTerminated None (Some 15))] =
        Some r"
    by auto
  from cleanup_signals_then_waits [OF inv valid alive exit] r run attrs show ?thesis
    by auto
qed

text \<open>
  C23: The benign race. When the transport still has its \<^verbatim>\<open>pid\<close> but the operating
  system no longer knows the process, \<^verbatim>\<open>signalProcess\<close> raises
  \<^verbatim>\<open>ProcessExitedAlready\<close>; the finalizer swallows it and returns at once, having
  printed the first line only.
\<close>

theorem cleanup_swallows_exited_already:
  assumes "pid (process_at w p) = Some n" and "os_gone (process_at w p)"
  shows "signalProcess (print_stdout w (signaling_message n)) p (ascii ''TERM'') =
           Inl ProcessExitedAlready \<and>
         cleanup_service_process w p ex es =
           Some (Inr (print_stdout w (signaling_message n), es))"
  using assms by (simp add: cleanup_race signalProcess_def)

theorem cleanup_swallows_exited_already_witness:
  "\<exists>w w2. run_service (new_session (ascii ''linux'') (ascii ''python3'') Map.empty)
       (ascii ''READY'') (ascii ''python3'') [] None False = Inr (0, w) \<and>
     react w (ProcessVanished 0) = Inr w2 \<and>
     cleanup_service_process w2 0 1 [ChildExited 0 ProcessDone] =
       Some (Inr (print_stdout w2 (signaling_message 1000), [ChildExited 0 ProcessDone]))"
proof -
  let ?w0 = "new_session (ascii ''linux'') (ascii ''python3'') Map.empty"
  from one_service [of "ascii ''linux''" "ascii ''python3''" Map.empty "ascii ''READY''"
      "ascii ''python3''" "[]" None False "ProcessDone" "[]"]
  obtain w where run: "run_service ?w0 (ascii ''READY'') (ascii ''python3'') [] None False = Inr (0, w)"
    and inv: "session_inv [0] w" and valid: "valid_process w 0"
    and alive: "pid (process_at w 0) = Some 1000" "\<not> os_gone (process_at w 0)"
    and attrs: "signals_sent (process_at w 0) = []" "exited (proto (process_at w 0)) = 1"
      "sys_stdout w = []" "\<not> called (deferred_at w 0)" "launch_inv w 0 0"
    and exit: "feasible (cleanup_blocked w 0 1000) [ChildExited 0 ProcessDone]"
    and data: "feasible (cleanup_blocked w 0 1000) [ChildWrote 0 1 []]"
    by blast
  let ?w2 = "set_process w 0 ((process_at w 0)\<lparr>os_gone := True\<rparr>)"
  from valid alive have "pid (process_at ?w2 0) = Some 1000" "os_gone (process_at ?w2 0)"
    by (simp_all add: process_at_set_process)
  from cleanup_swallows_exited_already [OF this, of 1 "[ChildExited 0 ProcessDone]"] run
  show ?thesis by auto
qed

text \<open>
  C24: The finalizer raises nothing. In a session that satisfies its invariant, whatever
  the state of the process and whatever events the reactor handles while the finalizer
  waits, \<^verbatim>\<open>_cleanup_service_process\<close> does not raise: it returns or it waits for ever.
\<close>

theorem cleanup_never_raises:
  fixes w :: "'a session_scheme"
  assumes "session_inv ds w" and "valid_process w p"
    and "\<forall>n. pid (process_at w p) = Some n \<longrightarrow> feasible (cleanup_blocked w p n) es"
  shows "cleanup_service_process w p (exited (proto (process_at w p))) es \<noteq> Some (Inl e)"
proof (cases "pid (process_at w p)")
  case None
  then show ?thesis by (simp add: cleanup_gone)
next
  case (Some n)
  with assms cleanup_waits [OF assms(1,2) Some] show ?thesis
    by (cases "os_gone (process_at w p)") (simp_all add: cleanup_race)
qed

theorem cleanup_never_raises_witness:
  "\<exists>w. run_service (new_session (ascii ''linux'') (ascii ''python3'') Map.empty)
       (ascii ''READY'') (ascii ''python3'') [] None False = Inr (0, w) \<and>
     (\<forall>e. cleanup_service_process w 0 1 [ChildExited 0 ProcessDone] \<noteq> Some (Inl e))"
proof -
  let ?w0 = "new_session (ascii ''linux'') (ascii ''python3'') Map.empty"
  from one_service [of "ascii ''linux''" "ascii ''python3''" Map.empty "ascii ''READY''"
      "ascii ''python3''" "[]" None False "ProcessDone" "[]"]
  obtain w where run: "run_service ?w0 (ascii ''READY'') (ascii ''python3'') [] None False = Inr (0, w)"
    and inv: "session_inv [0] w" and valid: "valid_process w 0"
    and alive: "pid (process_at w 0) = Some 1000" "\<not> os_gone (process_at w 0)"
    and attrs: "signals_sent (process_at w 0) = []" "exited (proto (process_at w 0)) = 1"
      "sys_stdout w = []" "\<not> called (deferred_at w 0)" "launch_inv w 0 0"
    and exit: "feasible (cleanup_blocked w 0 1000) [ChildExited 0 ProcessDone]"
    and data: "feasible (cleanup_blocked w 0 1000) [ChildWrote 0 1 []]"
    by blast
  from alive exit
  have "\<forall>n. pid (process_at w 0) = Some n \<longrightarrow>
          feasible (cleanup_blocked w 0 n) [ChildExited 0 ProcessDone]"
    by simp
  from cleanup_never_raises [OF inv valid this] run attrs(2) show ?thesis by auto
qed

text \<open>
  C25: A second call of the finalizer. After a call that returned, on a process the
  operating system knew, a second call with the same arguments returns at once: it
  sends no signal, handles no event and raises nothing. It is not without effect: it
  prints the line \<^verbatim>\<open>exited, goodbye\<close> again.
\<close>

theorem cleanup_twice:
  fixes w :: "'a session_scheme"
  assumes "session_inv ds w" and "valid_process w p" and "\<not> os_gone (process_at w p)"
    and "\<forall>n. pid (process_at w p) = Some n \<longrightarrow> feasible (cleanup_blocked w p n) es"
    and "cleanup_service_process w p (exited (proto (process_at w p))) es = Some (Inr (w', es'))"
  shows "cleanup_service_process w' p (exited (proto (process_at w p))) es' =
           Some (Inr (print_stdout w' goodbye_message, es'))"
proof -
  have "pid (process_at w' p) = None"
  proof (cases "pid (process_at w p)")
    case None
    with assms(5) show ?thesis by (auto simp: cleanup_gone)
  next
    case (Some n)
    with assms(4) have f: "feasible (cleanup_blocked w p n) es" by simp
    from cleanup_waits [OF assms(1,2) Some assms(3) f] assms(5)
    have exit: "list_ex (is_exit p) es"
      and "w' = print_stdout (reactor_run (cleanup_blocked w p n) (until_exit p es)) goodbye_message"
      by (auto split: if_splits)
    with cleanup_waited_state(3) [OF assms(1,2) Some assms(3) f exit] show ?thesis by simp
  qed
  then show ?thesis by (rule cleanup_gone)
qed

theorem cleanup_twice_witness:
  "\<exists>w w'. run_service (new_session (ascii ''linux'') (ascii ''python3'') Map.empty)
       (ascii ''READY'') (ascii ''python3'') [] None False = Inr (0, w) \<and>
     cleanup_service_process w 0 1 [ChildExited 0 ProcessDone] = Some (Inr (w', [])) \<and>
     cleanup_service_process w' 0 1 [] = Some (Inr (print_stdout w' goodbye_message, []))"
proof -
  let ?w0 = "new_session (ascii ''linux'') (ascii ''python3'') Map.empty"
  from one_service [of "ascii ''linux''" "ascii ''python3''" Map.empty "ascii ''READY''"
      "ascii ''python3''" "[]" None False "ProcessDone" "[]"]
  obtain w where run: "run_service ?w0 (ascii ''READY'') (ascii ''python3'') [] None False = Inr (0, w)"
    and inv: "session_inv [0] w" and valid: "valid_process w 0"
    and alive: "pid (process_at w 0) = Some 1000" "\<not> os_gone (process_at w 0)"
    and attrs: "signals_sent (process_at w 0) = []" "exited (proto (process_at w 0)) = 1"
      "sys_stdout w = []" "\<not> called (deferred_at w 0)" "launch_inv w 0 0"
    and exit: "feasible (cleanup_blocked w 0 1000) [ChildExited 0 ProcessDone]"
    and data: "feasible (cleanup_blocked w 0 1000) [ChildWrote 0 1 []]"
    by blast
  from alive exit
  have f: "\<forall>n. pid (process_at w 0) = Some n \<longrightarrow>
          feasible (cleanup_blocked w 0 n) [ChildExited 0 ProcessDone]"
    by simp
  from cleanup_waits [OF inv valid alive exit] attrs(2) obtain w'
    where first: "cleanup_service_process w 0 1 [ChildExited 0 ProcessDone] = Some (Inr (w', []))"
    by auto
  from cleanup_twice [OF inv valid alive(2) f, of w' "[]"] first run attrs(2) show ?thesis
    by auto
qed

end
