(* ===== verification/Mailbox_Server.thy ===== *)
theory Mailbox_Server
  imports Cleanup
begin

text \<open>
  \<^verbatim>\<open>WormholeMailboxServer\<close> (lines 129 to 160 of \<^verbatim>\<open>src/integration/util.py\<close>): the
  mailbox server of Magic Wormhole as a service of the test session. The coroutine
  \<^verbatim>\<open>create\<close> launches it with \<^verbatim>\<open>run_service\<close>, awaits the returned \<^verbatim>\<open>Deferred\<close> and
  builds the object from the transport. Awaiting is modelled like \<^verbatim>\<open>blockon\<close>: the
  reactor handles the events that are given until the \<^verbatim>\<open>Deferred\<close> has fired. The
  theory shows what is launched, when \<^verbatim>\<open>create\<close> returns the server, and what it
  raises.
\<close>

section \<open>The class\<close>

text \<open>
  The attributes \<^verbatim>\<open>process_transport\<close> and \<^verbatim>\<open>url\<close>. The attribute \<^verbatim>\<open>reactor\<close> is the
  one reactor of the session and is not represented.
\<close>

record WormholeMailboxServer =
  process_transport :: pyval
  url :: str

text \<open>The argument list, for the interpreter \<^verbatim>\<open>sys.executable\<close>.\<close>

definition mailbox_args :: "str \<Rightarrow> str list" where
  "mailbox_args python =
     [python, ascii ''-m'', ascii ''twisted'', ascii ''wormhole-mailbox'',
      ascii ''--port'', ascii ''tcp:4000:interface=localhost'']"

definition mailbox_magic_text :: str where
  "mailbox_magic_text = ascii ''Starting reactor...''"

definition mailbox_url :: str where
  "mailbox_url = ascii ''ws://localhost:4000/v1''"

text \<open>
  \<^verbatim>\<open>create\<close>: \<^verbatim>\<open>run_service\<close>, then the \<^verbatim>\<open>await\<close>, then the constructor. An exception of
  \<^verbatim>\<open>run_service\<close> and a failure of the awaited \<^verbatim>\<open>Deferred\<close> are raised; the value is
  \<open>None\<close> when the \<^verbatim>\<open>Deferred\<close> never fires.
\<close>

definition create ::
  "'a session_scheme \<Rightarrow> os_event list \<Rightarrow>
   (WormholeMailboxServer \<times> 'a session_scheme \<times> os_event list) result option" where
  "create w es =
     (case run_service w mailbox_magic_text (sys_executable w)
             (mailbox_args (sys_executable w)) None False of
        Inl e \<Rightarrow> Some (Inl e)
      | Inr (d, w1) \<Rightarrow>
          (case blockon w1 d es of
             None \<Rightarrow> None
           | Some (Failure e, w2, es') \<Rightarrow> Some (Inl e)
           | Some (Success transport, w2, es') \<Rightarrow>
               Some (Inr (\<lparr>process_transport = transport, url = mailbox_url\<rparr>, w2, es'))))"

lemmas mailbox_ops [fow_ops] =
  create_def mailbox_args_def mailbox_magic_text_def mailbox_url_def

section \<open>The launch of the mailbox server\<close>

lemma create_refused: "os_refuses_spawn w \<Longrightarrow> create w es = Some (Inl OSError)"
  by (simp add: create_def run_service_refused)

text \<open>The session in which \<^verbatim>\<open>create\<close> awaits.\<close>

lemma create_launch:
  fixes w :: "'a session_scheme"
  assumes "session_inv ds w" and "\<not> os_refuses_spawn w"
  obtains d w1 where
    "run_service w mailbox_magic_text (sys_executable w) (mailbox_args (sys_executable w))
       None False = Inr (d, w1)"
    and "session_inv (ds @ [d]) w1" and "launch_inv w1 d (length (processes w))"
    and "valid_process w1 (length (processes w))"
    and "process_at w1 (length (processes w)) =
           launched_process w mailbox_magic_text (sys_executable w)
             (mailbox_args (sys_executable w)) None False"
    and "\<not> called (deferred_at w1 d)" and "length ds = length (processes w)"
proof -
  from assms(2) run_service_Inr_iff [of w mailbox_magic_text "sys_executable w"
      "mailbox_args (sys_executable w)" None False]
  obtain d w1 where run: "run_service w mailbox_magic_text (sys_executable w)
      (mailbox_args (sys_executable w)) None False = Inr (d, w1)"
    by auto
  note new = run_service_new [OF run]
  from new(2) have "valid_process w1 (length (processes w))"
    and "process_at w1 (length (processes w)) =
           launched_process w mailbox_magic_text (sys_executable w)
             (mailbox_args (sys_executable w)) None False"
    by (simp_all add: valid_process_def process_at_def)
  moreover from new(3) have "\<not> called (deferred_at w1 d)" by (simp add: Deferred_def)
  ultimately show ?thesis
    using run run_service_inv [OF assms(1) run] launch_inv_new [OF run]
      session_inv_length [OF assms(1)]
    by (intro that [of d w1])
qed

lemma create_exits:
  fixes w :: "'a session_scheme"
  assumes "session_inv ds w" and "\<not> os_refuses_spawn w"
  shows "create w (ChildExited (length (processes w)) reason # rest) =
           Some (Inl service_failed)"
proof -
  let ?p = "length (processes w)"
  from assms obtain d w1
    where run: "run_service w mailbox_magic_text (sys_executable w)
        (mailbox_args (sys_executable w)) None False = Inr (d, w1)"
      and inv: "session_inv (ds @ [d]) w1" and launch: "launch_inv w1 d ?p"
      and valid: "valid_process w1 ?p"
      and x: "process_at w1 ?p = launched_process w mailbox_magic_text (sys_executable w)
          (mailbox_args (sys_executable w)) None False"
      and pending: "\<not> called (deferred_at w1 d)" and len: "length ds = ?p"
    by (rule create_launch)
  from len have d: "(ds @ [d]) ! ?p = d" by (simp add: nth_append)
  from x have "pid (process_at w1 ?p) \<noteq> None" by simp
  from blockon_failed [OF inv valid _ _ this, of reason rest] launch pending d
  have "blockon w1 d (ChildExited ?p reason # rest) =
      Some (Failure service_failed, reactor_step w1 (ChildExited ?p reason), rest)"
    by simp
  with run show ?thesis by (simp add: create_def)
qed

text \<open>The call of \<^verbatim>\<open>create\<close> when the banner arrives on the standard output of the child.\<close>

lemma create_ready:
  fixes w :: "'a session_scheme"
  assumes "session_inv ds w" and "\<not> os_refuses_spawn w"
    and "list_all2 (\<lambda>c s. decode_utf8 c = Inr s) chunks texts"
    and "contains (ascii ''Starting reactor...'') (concat texts)"
  obtains d w1 k where
    "run_service w mailbox_magic_text (sys_executable w) (mailbox_args (sys_executable w))
       None False = Inr (d, w1)"
    and "session_inv (ds @ [d]) w1" and "valid_process w1 (length (processes w))"
    and "process_at w1 (length (processes w)) =
           launched_process w mailbox_magic_text (sys_executable w)
             (mailbox_args (sys_executable w)) None False"
    and "k \<le> length chunks"
    and "create w (map (ChildWrote (length (processes w)) 1) chunks @ rest) =
           Some (Inr (\<lparr>process_transport = PyProcess (length (processes w)), url = mailbox_url\<rparr>,
                      reactor_run w1 (map (ChildWrote (length (processes w)) 1) (take k chunks)),
                      map (ChildWrote (length (processes w)) 1) (drop k chunks) @ rest))"
proof -
  let ?p = "length (processes w)"
  from assms(1,2) obtain d w1
    where run: "run_service w mailbox_magic_text (sys_executable w)
        (mailbox_args (sys_executable w)) None False = Inr (d, w1)"
      and inv: "session_inv (ds @ [d]) w1" and launch: "launch_inv w1 d ?p"
      and valid: "valid_process w1 ?p"
      and x: "process_at w1 ?p = launched_process w mailbox_magic_text (sys_executable w)
          (mailbox_args (sys_executable w)) None False"
      and pending: "\<not> called (deferred_at w1 d)" and len: "length ds = ?p"
    by (rule create_launch)
  from len have d: "(ds @ [d]) ! ?p = d" by (simp add: nth_append)
  from assms(3,4) have "texts \<noteq> []" by (auto simp: ascii_def)
  with assms(4) x have marker: "marker_arrives (proto (process_at w1 ?p)) texts"
    by (simp add: marker_arrives_def mailbox_magic_text_def)
  from x have "pid (process_at w1 ?p) \<noteq> None" "1 \<in> set (readable_fds (process_at w1 ?p))"
    by (simp_all add: readable_fds_launched)
  from blockon_ready [OF inv valid _ _ this assms(3) marker, of rest] launch pending d
  obtain k where k: "k \<le> length chunks"
    and "blockon w1 d (map (ChildWrote ?p 1) chunks @ rest) =
      Some (Success (PyProcess ?p), reactor_run w1 (map (ChildWrote ?p 1) (take k chunks)),
            map (ChildWrote ?p 1) (drop k chunks) @ rest)"
    by auto
  with run have "create w (map (ChildWrote ?p 1) chunks @ rest) =
      Some (Inr (\<lparr>process_transport = PyProcess ?p, url = mailbox_url\<rparr>,
                 reactor_run w1 (map (ChildWrote ?p 1) (take k chunks)),
                 map (ChildWrote ?p 1) (drop k chunks) @ rest))"
    by (simp add: create_def)
  with run inv valid x k show ?thesis by (rule that)
qed

section \<open>Properties of \<^verbatim>\<open>create\<close>\<close>

text \<open>
  C8: \<^verbatim>\<open>create\<close> returns the server once the banner has been printed. In a session
  that satisfies its invariant and in which the process can be spawned, when the new
  child writes to its standard output chunks that decode and that together contain
  \<^verbatim>\<open>Starting reactor...\<close>, \<^verbatim>\<open>create\<close> returns within these chunks, however they are cut
  and whatever follows them; the object it returns holds the transport of the process
  that was launched and the url \<^verbatim>\<open>ws://localhost:4000/v1\<close>.
\<close>

theorem create_returns_server:
  fixes w :: "'a session_scheme"
  assumes "session_inv ds w" and "\<not> os_refuses_spawn w"
    and "list_all2 (\<lambda>c s. decode_utf8 c = Inr s) chunks texts"
    and "contains (ascii ''Starting reactor...'') (concat texts)"
  shows "\<exists>server w' k.
           create w (map (ChildWrote (length (processes w)) 1) chunks @ rest) =
             Some (Inr (server, w',
                        map (ChildWrote (length (processes w)) 1) (drop k chunks) @ rest)) \<and>
           process_transport server = PyProcess (length (processes w)) \<and>
           url server = ascii ''ws://localhost:4000/v1''"
proof -
  from assms obtain d w1 k
    where "create w (map (ChildWrote (length (processes w)) 1) chunks @ rest) =
        Some (Inr (\<lparr>process_transport = PyProcess (length (processes w)), url = mailbox_url\<rparr>,
                   reactor_run w1 (map (ChildWrote (length (processes w)) 1) (take k chunks)),
                   map (ChildWrote (length (processes w)) 1) (drop k chunks) @ rest))"
    by (rule create_ready [where rest = rest])
  then show ?thesis by (auto simp: mailbox_url_def)
qed

theorem create_returns_server_witness:
  "\<exists>server w' es'.
     create (new_session (ascii ''linux'') (ascii ''python3'') Map.empty)
       [ChildWrote 0 1 (ascii_bytes ''Star''), ChildWrote 0 1 (ascii_bytes ''ting reactor...'')] =
       Some (Inr (server, w', es')) \<and>
     process_transport server = PyProcess 0 \<and> url server = ascii ''ws://localhost:4000/v1''"
proof -
  let ?w = "new_session (ascii ''linux'') (ascii ''python3'') Map.empty"
  let ?chunks = "[ascii_bytes ''Star'', ascii_bytes ''ting reactor...'']"
  have dec: "list_all2 (\<lambda>c s. decode_utf8 c = Inr s) ?chunks
      [ascii ''Star'', ascii ''ting reactor...'']"
    by (simp add: decode_utf8_ascii_bytes)
  have marker: "contains (ascii ''Starting reactor...'')
      (concat [ascii ''Star'', ascii ''ting reactor...''])"
    by (simp add: ascii_append [symmetric])
  have w: "\<not> os_refuses_spawn ?w" "processes ?w = []" by (simp_all add: new_session_def)
  from create_returns_server [OF session_inv_new_session w(1) dec marker, of "[]"] w(2)
  show ?thesis by auto
qed

text \<open>
  C26: \<^verbatim>\<open>create\<close> raises when the service exits first. When the first event of the
  launched process is its exit, the awaited \<^verbatim>\<open>Deferred\<close> fails and \<^verbatim>\<open>create\<close> raises
  \<^verbatim>\<open>Exception("Service failed.")\<close>, whatever the reason of the exit.
\<close>

theorem create_raises_when_service_exits:
  fixes w :: "'a session_scheme"
  assumes "session_inv ds w" and "\<not> os_refuses_spawn w"
  shows "create w (ChildExited (length (processes w)) reason # rest) =
           Some (Inl (Exception (ascii ''Service failed.'')))"
  using create_exits [OF assms] by (simp add: service_failed_def)

theorem create_raises_when_service_exits_witness:
  "create (new_session (ascii ''linux'') (ascii ''python3'') Map.empty)
     [ChildExited 0 (ProcessTerminated (Some 1) None)] =
   Some (Inl (Exception (ascii ''Service failed.'')))"
  using create_raises_when_service_exits [OF session_inv_new_session,
      of "ascii ''linux''" "ascii ''python3''" Map.empty "ProcessTerminated (Some 1) None" "[]"]
  by (simp add: new_session_def)

text \<open>
  C27: What \<^verbatim>\<open>create\<close> can yield. Whatever events the reactor handles while \<^verbatim>\<open>create\<close>
  awaits, a call that returns yields the transport of the process it launched and the
  fixed url, and a call that raises raises \<^verbatim>\<open>OSError\<close>, when the process could not be
  spawned, or \<^verbatim>\<open>Exception("Service failed.")\<close>.
\<close>

theorem create_outcomes:
  fixes w :: "'a session_scheme"
  assumes "session_inv ds w"
    and "\<forall>d w1. run_service w mailbox_magic_text (sys_executable w)
                   (mailbox_args (sys_executable w)) None False = Inr (d, w1)
                 \<longrightarrow> feasible w1 es"
    and "create w es = Some r"
  shows "(os_refuses_spawn w \<and> r = Inl OSError) \<or>
         (\<not> os_refuses_spawn w \<and> r = Inl service_failed) \<or>
         (\<not> os_refuses_spawn w \<and>
          (\<exists>w' es'. r = Inr (\<lparr>process_transport = PyProcess (length (processes w)),
                                 url = mailbox_url\<rparr>, w', es')))"
proof (cases "os_refuses_spawn w")
  case True
  with assms(3) show ?thesis by (simp add: create_refused)
next
  case False
  let ?p = "length (processes w)"
  from assms(1) False obtain d w1
    where run: "run_service w mailbox_magic_text (sys_executable w)
        (mailbox_args (sys_executable w)) None False = Inr (d, w1)"
      and inv: "session_inv (ds @ [d]) w1" and launch: "launch_inv w1 d ?p"
      and valid: "valid_process w1 ?p" and len: "length ds = ?p"
    by (rule create_launch)
  from len have d: "(ds @ [d]) ! ?p = d" by (simp add: nth_append)
  from assms(2) run have f: "feasible w1 es" by simp
  from assms(3) run obtain v w2 es' where b: "blockon w1 d es = Some (v, w2, es')"
    and r: "r = (case v of Failure e \<Rightarrow> Inl e
                 | Success t \<Rightarrow> Inr (\<lparr>process_transport = t, url = mailbox_url\<rparr>, w2, es'))"
    by (auto simp: create_def split: option.splits outcome.splits)
  from blockon_Some [OF b] obtain es0 where es: "es = es0 @ es'"
    and w2: "w2 = reactor_run w1 es0" and v: "result (deferred_at w2 d) = Some v"
    by blast
  from f es have "feasible w1 es0" by simp
  with inv valid launch d w2 have "launch_inv w2 d ?p"
    using launch_inv_reactor_run [of "ds @ [d]" w1 ?p es0] by simp
  moreover from inv \<open>feasible w1 es0\<close> w2 have "session_inv (ds @ [d]) w2"
    by (simp add: reactor_run_inv)
  then have "deferred_wf (deferred_at w2 d)"
    using valid d reactor_run_facts(1) [OF inv \<open>feasible w1 es0\<close>, of ?p] w2
      session_inv_protocol [of "ds @ [d]" w2 ?p]
    by (auto dest!: protocol_inv_refs intro: store_wf_at)
  ultimately have "v = Success (PyProcess ?p) \<or> v = Failure service_failed"
    using v by (auto simp: launch_inv_def deferred_wf_def succeeded_def failed_def split: if_splits)
  with r False show ?thesis by auto
qed

theorem create_outcomes_witness:
  "create (new_session (ascii ''linux'') (ascii ''python3'') Map.empty)
     [ChildExited 0 ProcessDone] = Some (Inl service_failed)"
proof -
  let ?w = "new_session (ascii ''linux'') (ascii ''python3'') Map.empty"
  let ?es = "[ChildExited 0 ProcessDone]"
  have w: "\<not> os_refuses_spawn ?w" "processes ?w = []" "sys_executable ?w = ascii ''python3''"
    by (simp_all add: new_session_def)
  from first_launch [of "ascii ''linux''" "ascii ''python3''" Map.empty mailbox_magic_text
      "ascii ''python3''" "mailbox_args (ascii ''python3'')" None False]
  obtain w1 where run: "run_service ?w mailbox_magic_text (ascii ''python3'')
      (mailbox_args (ascii ''python3'')) None False = Inr (0, w1)"
    and "valid_process w1 0" "pid (process_at w1 0) = Some 1000"
    by blast
  then have f: "\<forall>d w'. run_service ?w mailbox_magic_text (sys_executable ?w)
      (mailbox_args (sys_executable ?w)) None False = Inr (d, w') \<longrightarrow> feasible w' ?es"
    by (simp add: w)
  from create_exits [OF session_inv_new_session w(1), of ProcessDone "[]"] w(2)
  have c: "create ?w ?es = Some (Inl service_failed)" by simp
  from create_outcomes [OF session_inv_new_session f c] show ?thesis using c by simp
qed

end
