(* ===== verification/Lifecycle.thy ===== *)
theory Lifecycle
  imports Mailbox_Server
begin

text \<open>
  The life of the services of a test session as a transition system. A state is the
  session together with the finalizer that is waiting in \<^verbatim>\<open>blockon\<close>, if one is; the
  actions are a launch by \<^verbatim>\<open>run_service\<close>, an event handled by the reactor, the start
  of the next finalizer at teardown, and the return of a finalizer that waited. The
  theory shows the invariant of every state a session reaches, and that each service
  moves through the phases of the specification (starting, ready, terminating,
  terminated) in this order only.
\<close>

section \<open>States and actions\<close>

record lifecycle = session +
  waiting :: "finalizer option"

datatype action =
    Launch str str "str list" "str option" bool
  | Event os_event
  | Finalize
  | Resume

text \<open>The state in which a session starts.\<close>

definition initial :: "str \<Rightarrow> str \<Rightarrow> (str \<rightharpoonup> str) \<Rightarrow> lifecycle" where
  "initial platform_name python environ =
     \<lparr>deferreds = [], sys_stdout = [], processes = [], finalizers = [],
      os_environ = environ, sys_platform = platform_name, sys_executable = python,
      os_next_pid = 1000, os_refuses_spawn = False, waiting = None\<rparr>"

text \<open>
  The steps. Test code, and with it \<^verbatim>\<open>run_service\<close>, runs only while no finalizer
  waits. \<open>Finalize\<close> takes the finalizer registered last and runs
  \<^verbatim>\<open>_cleanup_service_process\<close> up to the point where it returns or blocks; \<open>Resume\<close> is
  the return of \<^verbatim>\<open>blockon\<close> once \<^verbatim>\<open>exited\<close> has fired, and the last line of the
  finalizer.
\<close>

inductive step :: "lifecycle \<Rightarrow> action \<Rightarrow> lifecycle \<Rightarrow> bool" where
  launch:
    "waiting w = None \<Longrightarrow> run_service w mt executable args cwd pl = Inr (d, w') \<Longrightarrow>
     step w (Launch mt executable args cwd pl) w'"
| event:
    "enabled w e \<Longrightarrow> step w (Event e) (reactor_step w e)"
| finalize_gone:
    "waiting w = None \<Longrightarrow> finalizers w = CleanupServiceProcess p ex # fs \<Longrightarrow>
     pid (process_at w p) = None \<Longrightarrow>
     step w Finalize (print_stdout (w\<lparr>finalizers := fs\<rparr>) goodbye_message)"
| finalize_race:
    "waiting w = None \<Longrightarrow> finalizers w = CleanupServiceProcess p ex # fs \<Longrightarrow>
     pid (process_at w p) = Some n \<Longrightarrow> os_gone (process_at w p) \<Longrightarrow>
     step w Finalize (print_stdout (w\<lparr>finalizers := fs\<rparr>) (signaling_message n))"
| finalize_signal:
    "waiting w = None \<Longrightarrow> finalizers w = CleanupServiceProcess p ex # fs \<Longrightarrow>
     pid (process_at w p) = Some n \<Longrightarrow> \<not> os_gone (process_at w p) \<Longrightarrow>
     step w Finalize
       ((cleanup_blocked (w\<lparr>finalizers := fs\<rparr>) p n)
          \<lparr>waiting := Some (CleanupServiceProcess p ex)\<rparr>)"
| resume:
    "waiting w = Some (CleanupServiceProcess p ex) \<Longrightarrow> called (deferred_at w ex) \<Longrightarrow>
     step w Resume (print_stdout (w\<lparr>waiting := None\<rparr>) goodbye_message)"

inductive_cases step_LaunchE: "step w (Launch mt executable args cwd pl) w'"
inductive_cases step_EventE: "step w (Event e) w'"
inductive_cases step_FinalizeE: "step w Finalize w'"
inductive_cases step_ResumeE: "step w Resume w'"

text \<open>The \<^verbatim>\<open>Deferred\<close> an action returns to the test code: the one of a launch.\<close>

fun returned :: "lifecycle \<Rightarrow> action \<Rightarrow> ref list" where
  "returned w (Launch mt executable args cwd pl) = [length (deferreds w)]"
| "returned w (Event e) = []"
| "returned w Finalize = []"
| "returned w Resume = []"

text \<open>
  \<open>run w0 acts ds w\<close>: the actions \<open>acts\<close> lead from \<open>w0\<close> to \<open>w\<close>, and \<open>ds\<close> are the
  \<^verbatim>\<open>Deferred\<close>s the launches among them returned, in order.
\<close>

inductive run :: "lifecycle \<Rightarrow> action list \<Rightarrow> ref list \<Rightarrow> lifecycle \<Rightarrow> bool" where
  run_Nil: "run w0 [] [] w0"
| run_step: "run w0 acts ds w \<Longrightarrow> step w a w' \<Longrightarrow> run w0 (acts @ [a]) (ds @ returned w a) w'"

section \<open>The invariant of a session's life\<close>

fun finalizer_process :: "finalizer \<Rightarrow> ref" where
  "finalizer_process (CleanupServiceProcess p ex) = p"

text \<open>
  \<open>service_inv w d p\<close>, for the transport \<open>p\<close> and the \<^verbatim>\<open>Deferred\<close> \<open>d\<close> its launch
  returned: \<open>d\<close> is as \<open>launch_inv\<close> says; it has failed only if the process has exited;
  the process was sent nothing, or \<^verbatim>\<open>TERM\<close> once; and it was sent nothing as long as its
  finalizer is registered.
\<close>

definition service_inv :: "lifecycle \<Rightarrow> ref \<Rightarrow> ref \<Rightarrow> bool" where
  "service_inv w d p \<longleftrightarrow>
     launch_inv w d p \<and>
     (is_failure (deferred_at w d) \<longrightarrow> pid (process_at w p) = None) \<and>
     (signals_sent (process_at w p) = [] \<or> signals_sent (process_at w p) = [ascii ''TERM'']) \<and>
     (p \<in> finalizer_process ` set (finalizers w) \<longrightarrow> signals_sent (process_at w p) = [])"

text \<open>
  \<open>lifecycle_inv ds w\<close>: the invariant of the session, \<open>service_inv\<close> for every service,
  at most one finalizer for a transport, and the finalizer that waits is no longer
  registered.
\<close>

definition lifecycle_inv :: "ref list \<Rightarrow> lifecycle \<Rightarrow> bool" where
  "lifecycle_inv ds w \<longleftrightarrow>
     session_inv ds w \<and> (\<forall>p < length ds. service_inv w (ds ! p) p) \<and>
     distinct (map finalizer_process (finalizers w)) \<and>
     (\<forall>f. waiting w = Some f \<longrightarrow>
        finalizer_ok w f \<and> finalizer_process f \<notin> finalizer_process ` set (finalizers w) \<and>
        signals_sent (process_at w (finalizer_process f)) = [ascii ''TERM''])"

section \<open>The phases of a service\<close>

text \<open>
  The phases the specification names for a launched service, in the order a service
  passes them.
\<close>

datatype phase = Starting | Ready | Failed_to_start | Terminating | Terminated

fun phase_rank :: "phase \<Rightarrow> nat" where
  "phase_rank Starting = 0"
| "phase_rank Ready = 1"
| "phase_rank Failed_to_start = 2"
| "phase_rank Terminating = 3"
| "phase_rank Terminated = 4"

instantiation phase :: linorder
begin

definition less_eq_phase :: "phase \<Rightarrow> phase \<Rightarrow> bool" where
  "less_eq_phase a b \<longleftrightarrow> phase_rank a \<le> phase_rank b"

definition less_phase :: "phase \<Rightarrow> phase \<Rightarrow> bool" where
  "less_phase a b \<longleftrightarrow> phase_rank a < phase_rank b"

instance
proof
  fix a b :: phase
  show "a \<le> b \<Longrightarrow> b \<le> a \<Longrightarrow> a = b"
    by (cases a; cases b) (simp_all add: less_eq_phase_def)
qed (auto simp: less_eq_phase_def less_phase_def)

end

text \<open>
  The phase of the service with the transport \<open>p\<close> and the readiness \<^verbatim>\<open>Deferred\<close> \<open>d\<close>,
  read off the state: it is terminated when the reactor has reaped the child (the
  transport has lost its \<^verbatim>\<open>pid\<close>, which is what \<^verbatim>\<open>_cleanup_service_process\<close> tests),
  terminating when \<^verbatim>\<open>TERM\<close> was delivered, and otherwise what the readiness
  \<^verbatim>\<open>Deferred\<close> says.
\<close>

definition phase_of :: "'a session_scheme \<Rightarrow> ref \<Rightarrow> ref \<Rightarrow> phase" where
  "phase_of w d p =
     (if pid (process_at w p) = None then Terminated
      else if signals_sent (process_at w p) \<noteq> [] then Terminating
      else if \<not> called (deferred_at w d) then Starting
      else if is_failure (deferred_at w d) then Failed_to_start
      else Ready)"

text \<open>
  The arrows of the specification's list of states: \<^emph>\<open>Starting\<close> to \<^emph>\<open>Ready\<close> or
  \<^emph>\<open>Failed-to-start\<close>, both to \<^emph>\<open>Terminating\<close>, that to \<^emph>\<open>Terminated\<close>, and \<^emph>\<open>Starting\<close>
  to \<^emph>\<open>Terminated\<close>.
\<close>

fun spec_arrow :: "phase \<Rightarrow> phase \<Rightarrow> bool" where
  "spec_arrow Starting b \<longleftrightarrow> b = Ready \<or> b = Failed_to_start \<or> b = Terminated"
| "spec_arrow Ready b \<longleftrightarrow> b = Terminating"
| "spec_arrow Failed_to_start b \<longleftrightarrow> b = Terminating"
| "spec_arrow Terminating b \<longleftrightarrow> b = Terminated"
| "spec_arrow Terminated b \<longleftrightarrow> False"

text \<open>
  The machine the code implements: the arrows of the specification, and the two its
  prose describes but its list leaves out, the finalizer that runs while readiness is
  pending and the ready service that exits on its own.
\<close>

definition phase_step :: "phase \<Rightarrow> phase \<Rightarrow> bool" where
  "phase_step a b \<longleftrightarrow>
     spec_arrow a b \<or> a = Starting \<and> b = Terminating \<or> a = Ready \<and> b = Terminated"

text \<open>
  The abstract state of a session is the list of the phases of its services, in the
  order of the launches. A step of the abstract machine adds a service in the phase
  \<^emph>\<open>Starting\<close>, or moves some services along \<open>phase_step\<close> and leaves the others.
\<close>

definition phases :: "ref list \<Rightarrow> 'a session_scheme \<Rightarrow> phase list" where
  "phases ds w = map (\<lambda>p. phase_of w (ds ! p) p) [0..<length ds]"

definition system_step :: "phase list \<Rightarrow> phase list \<Rightarrow> bool" where
  "system_step ps ps' \<longleftrightarrow>
     ps' = ps @ [Starting] \<or> list_all2 (\<lambda>a b. a = b \<or> phase_step a b) ps ps'"

section \<open>Facts about the invariant\<close>

lemma lifecycle_inv_session: "lifecycle_inv ds w \<Longrightarrow> session_inv ds w"
  by (simp add: lifecycle_inv_def)

lemma lifecycle_inv_service:
  "lifecycle_inv ds w \<Longrightarrow> p < length ds \<Longrightarrow> service_inv w (ds ! p) p"
  by (simp add: lifecycle_inv_def)

lemma lifecycle_inv_valid:
  "lifecycle_inv ds w \<Longrightarrow> p < length ds \<longleftrightarrow> valid_process w p"
  by (auto simp: lifecycle_inv_def valid_process_def dest: session_inv_length)

text \<open>What the invariant of a service reads of the state.\<close>

lemma service_inv_same:
  assumes "service_inv w d p" and "deferred_at w' d = deferred_at w d"
    and "process_at w' p = process_at w p"
    and "p \<in> finalizer_process ` set (finalizers w') \<Longrightarrow>
         p \<in> finalizer_process ` set (finalizers w)"
  shows "service_inv w' d p"
  using assms by (auto simp: service_inv_def launch_inv_def)

lemma waiting_more:
  fixes w w' :: lifecycle
  shows "session.more w' = session.more w \<Longrightarrow> waiting w' = waiting w"
  by (cases w, cases w') simp

lemma update_frame [simp]:
  fixes w :: lifecycle
  shows "process_at (w\<lparr>finalizers := fs\<rparr>) = process_at w"
    and "process_at (w\<lparr>waiting := f\<rparr>) = process_at w"
    and "deferred_at (w\<lparr>finalizers := fs\<rparr>) = deferred_at w"
    and "deferred_at (w\<lparr>waiting := f\<rparr>) = deferred_at w"
    and "valid_process (w\<lparr>finalizers := fs\<rparr>) = valid_process w"
    and "valid_process (w\<lparr>waiting := f\<rparr>) = valid_process w"
  by (simp_all add: fun_eq_iff process_at_def deferred_at_def valid_process_def)

lemma stdout_frame [simp]:
  fixes w :: lifecycle
  shows "waiting (print_stdout w s) = waiting w"
    and "os_environ (print_stdout w s) = os_environ w"
  by (simp_all add: print_stdout_def)

lemma cleanup_blocked_frame [simp]:
  fixes w :: lifecycle
  shows "waiting (cleanup_blocked w p n) = waiting w"
    and "deferreds (cleanup_blocked w p n) = deferreds w"
  by (simp_all add: cleanup_blocked_def set_process_def print_stdout_def)

lemma session_inv_finalizers:
  fixes w :: "'a session_scheme"
  assumes "session_inv ds w" and "set fs \<subseteq> set (finalizers w)"
  shows "session_inv ds (w\<lparr>finalizers := fs\<rparr>)"
  using assms(1) by (rule session_inv_same) (simp_all add: assms(2))

lemma session_inv_pop:
  fixes w :: "'a session_scheme"
  shows "session_inv ds w \<Longrightarrow> finalizers w = f # fs \<Longrightarrow> session_inv ds (w\<lparr>finalizers := fs\<rparr>)"
  by (rule session_inv_finalizers) auto

lemma session_inv_waiting [simp]:
  fixes w :: lifecycle
  shows "session_inv ds (w\<lparr>waiting := f\<rparr>) = session_inv ds w"
proof
  assume "session_inv ds (w\<lparr>waiting := f\<rparr>)"
  then show "session_inv ds w" by (rule session_inv_same) simp_all
next
  assume "session_inv ds w"
  then show "session_inv ds (w\<lparr>waiting := f\<rparr>)" by (rule session_inv_same) simp_all
qed

section \<open>Every step keeps the invariant\<close>

lemma finalizer_process_valid:
  assumes "session_inv ds w" and "p \<in> finalizer_process ` set (finalizers w)"
  shows "valid_process w p"
proof -
  from assms(2) obtain f where f: "f \<in> set (finalizers w)" and p: "p = finalizer_process f"
    by auto
  from assms(1) f have "finalizer_ok w f" by (simp add: session_inv_def list_all_iff)
  with p show ?thesis by (cases f) simp
qed

lemma service_inv_launch_old:
  assumes inv: "service_inv w d p" and d: "valid_ref w d" and p: "valid_process w p"
    and run: "run_service w mt executable args cwd pl = Inr (d', w')"
  shows "service_inv w' d p"
proof (rule service_inv_same [OF inv])
  show "deferred_at w' d = deferred_at w d" by (rule run_service_old(1) [OF run d])
  show "process_at w' p = process_at w p" by (rule run_service_old(2) [OF run p])
  assume "p \<in> finalizer_process ` set (finalizers w')"
  with p show "p \<in> finalizer_process ` set (finalizers w)"
    by (simp add: run_service_new(6) [OF run] valid_process_def)
qed

lemma service_inv_launch_new:
  assumes run: "run_service w mt executable args cwd pl = Inr (d, w')"
  shows "service_inv w' d (length (processes w))"
proof -
  have "process_at w' (length (processes w)) = launched_process w mt executable args cwd pl"
    by (simp add: process_at_def run_service_new(2) [OF run])
  moreover have "\<not> is_failure (deferred_at w' d)"
    by (simp add: run_service_new(3) [OF run] is_failure_def Deferred_def)
  ultimately show ?thesis using launch_inv_new [OF run] by (simp add: service_inv_def)
qed

lemma lifecycle_launch:
  assumes inv: "lifecycle_inv ds w" and idle: "waiting w = None"
    and run: "run_service w mt executable args cwd pl = Inr (d, w')"
  shows "lifecycle_inv (ds @ [d]) w'"
proof -
  from inv have sinv: "session_inv ds w" by (rule lifecycle_inv_session)
  then have len: "length ds = length (processes w)" by (rule session_inv_length)
  have "service_inv w' ((ds @ [d]) ! p) p" if p: "p < length (ds @ [d])" for p
  proof (cases "p < length ds")
    case True
    with len have valid: "valid_process w p" by (simp add: valid_process_def)
    from True len have "ds ! p \<in> set (session_refs ds (processes w))"
      by (simp add: session_refs_def)
    with sinv have "valid_ref w (ds ! p)" by (rule session_refs_valid)
    with lifecycle_inv_service [OF inv True] have "service_inv w' (ds ! p) p"
      using valid run by (rule service_inv_launch_old)
    with True show ?thesis by (simp add: nth_append)
  next
    case False
    with p len have "p = length (processes w)" by simp
    with service_inv_launch_new [OF run] len show ?thesis by (simp add: nth_append)
  qed
  moreover have "distinct (map finalizer_process (finalizers w'))"
  proof -
    have "length (processes w) \<notin> finalizer_process ` set (finalizers w)"
      using finalizer_process_valid [OF sinv] by (auto simp: valid_process_def)
    with inv show ?thesis by (simp add: lifecycle_inv_def run_service_new(6) [OF run])
  qed
  moreover from idle have "waiting w' = None"
    by (simp add: waiting_more [OF run_service_old(9) [OF run]])
  ultimately show ?thesis using run_service_inv [OF sinv run]
    by (simp add: lifecycle_inv_def)
qed

lemma failure_reactor_step:
  fixes w :: "'a session_scheme"
  assumes inv: "session_inv ds w" and valid: "valid_process w p"
    and launch: "launch_inv w (ds ! p) p"
    and old: "is_failure (deferred_at w (ds ! p)) \<longrightarrow> pid (process_at w p) = None"
    and en: "enabled w e"
  shows "is_failure (deferred_at (reactor_step w e) (ds ! p)) \<longrightarrow>
         pid (process_at (reactor_step w e) p) = None"
  using inv en
proof (cases rule: reactor_step_cases)
  case handled
  from react_readiness [OF inv valid en handled] launch_inv_fired(1) [OF launch] old
    react_process(2) [OF valid en handled]
  show ?thesis by (auto simp: succeeded_def is_failure_def)
next
  case raised
  with old show ?thesis by simp
qed

lemma lifecycle_event:
  assumes inv: "lifecycle_inv ds w" and en: "enabled w e"
  shows "lifecycle_inv ds (reactor_step w e)"
proof -
  let ?w' = "reactor_step w e"
  from inv have sinv: "session_inv ds w" by (rule lifecycle_inv_session)
  note keep = reactor_step_finalizers [OF sinv en] reactor_step_signals [OF sinv _ en]
    reactor_step_valid_process [OF sinv en] reactor_step_exited_ref [OF sinv en]
  have "service_inv ?w' (ds ! p) p" if p: "p < length ds" for p
  proof -
    from inv p have valid: "valid_process w p" by (simp add: lifecycle_inv_valid)
    from lifecycle_inv_service [OF inv p]
    have s: "launch_inv w (ds ! p) p"
      "is_failure (deferred_at w (ds ! p)) \<longrightarrow> pid (process_at w p) = None"
      "signals_sent (process_at w p) = [] \<or> signals_sent (process_at w p) = [ascii ''TERM'']"
      "p \<in> finalizer_process ` set (finalizers w) \<longrightarrow> signals_sent (process_at w p) = []"
      by (simp_all add: service_inv_def)
    from launch_inv_reactor_step [OF sinv valid s(1) en]
      failure_reactor_step [OF sinv valid s(1,2) en] s(3,4) keep(1) keep(3) [OF valid]
    show ?thesis by (simp add: service_inv_def)
  qed
  moreover have "finalizer_ok ?w' f \<and>
      signals_sent (process_at ?w' (finalizer_process f)) = [ascii ''TERM'']"
    if "waiting w = Some f" for f
  proof (cases f)
    case (CleanupServiceProcess q ex)
    with inv that keep(3) [of q] keep(4) [of q] keep(5) [of q] show ?thesis
      by (simp add: lifecycle_inv_def)
  qed
  moreover from keep(2) have "waiting ?w' = waiting w" by (rule waiting_more)
  ultimately show ?thesis using inv reactor_step_inv [OF sinv en] keep(1)
    by (simp add: lifecycle_inv_def)
qed

text \<open>A finalizer that returns at once: it is taken off the list and a line is printed.\<close>

lemma lifecycle_finalize_return:
  assumes inv: "lifecycle_inv ds w" and idle: "waiting w = None"
    and fs: "finalizers w = f # fs"
  shows "lifecycle_inv ds (print_stdout (w\<lparr>finalizers := fs\<rparr>) s)"
proof -
  let ?w' = "print_stdout (w\<lparr>finalizers := fs\<rparr>) s"
  from inv have sinv: "session_inv ds w" by (rule lifecycle_inv_session)
  from sinv fs have "session_inv ds ?w'" by (simp add: session_inv_pop)
  moreover have "service_inv ?w' (ds ! p) p" if "p < length ds" for p
    using lifecycle_inv_service [OF inv that]
    by (rule service_inv_same) (auto simp: fs)
  ultimately show ?thesis using inv idle fs by (simp add: lifecycle_inv_def)
qed

text \<open>A finalizer that signals and waits.\<close>

lemma lifecycle_finalize_signal:
  assumes inv: "lifecycle_inv ds w" and idle: "waiting w = None"
    and fs: "finalizers w = CleanupServiceProcess p ex # fs"
    and alive: "pid (process_at w p) = Some n" "\<not> os_gone (process_at w p)"
  shows "lifecycle_inv ds
           ((cleanup_blocked (w\<lparr>finalizers := fs\<rparr>) p n)
              \<lparr>waiting := Some (CleanupServiceProcess p ex)\<rparr>)"
proof -
  let ?w0 = "w\<lparr>finalizers := fs\<rparr>"
  let ?w' = "(cleanup_blocked ?w0 p n)\<lparr>waiting := Some (CleanupServiceProcess p ex)\<rparr>"
  from inv have sinv: "session_inv ds w" by (rule lifecycle_inv_session)
  from sinv fs have ok: "valid_process w p" "ex = exited (proto (process_at w p))"
    by (simp_all add: session_inv_def)
  from inv fs have fresh: "p \<notin> finalizer_process ` set fs"
    and dist: "distinct (map finalizer_process fs)"
    by (auto simp: lifecycle_inv_def)
  from ok(1) have valid0: "valid_process ?w0 p" by simp
  note facts = cleanup_blocked_facts [OF valid0]
  from sinv fs have "session_inv ds ?w0" by (rule session_inv_pop)
  then have "session_inv ds (cleanup_blocked ?w0 p n)"
    using valid0 by (rule cleanup_blocked_inv) (simp_all add: alive)
  then have sinv': "session_inv ds ?w'" by simp
  have "service_inv ?w' (ds ! q) q" if q: "q < length ds" for q
  proof (cases "q = p")
    case True
    from lifecycle_inv_service [OF inv q] fs True
    have "signals_sent (process_at w p) = []" "launch_inv w (ds ! p) p"
      "is_failure (deferred_at w (ds ! p)) \<longrightarrow> pid (process_at w p) = None"
      by (simp_all add: service_inv_def)
    with True fresh facts show ?thesis
      by (simp add: service_inv_def launch_inv_def)
  next
    case False
    from lifecycle_inv_service [OF inv q] show ?thesis
      by (rule service_inv_same) (simp_all add: facts False fs)
  qed
  moreover from lifecycle_inv_service [OF inv, of p] fs ok(1) inv
  have "signals_sent (process_at w p) = []"
    by (simp add: service_inv_def lifecycle_inv_valid [symmetric])
  ultimately show ?thesis using sinv' dist fresh ok facts
    by (simp add: lifecycle_inv_def)
qed

lemma lifecycle_resume:
  assumes inv: "lifecycle_inv ds w"
  shows "lifecycle_inv ds (print_stdout (w\<lparr>waiting := None\<rparr>) s)"
proof -
  let ?w' = "print_stdout (w\<lparr>waiting := None\<rparr>) s"
  from inv have "session_inv ds ?w'" by (simp add: lifecycle_inv_session)
  moreover have "service_inv ?w' (ds ! p) p" if "p < length ds" for p
    using lifecycle_inv_service [OF inv that] by (rule service_inv_same) auto
  ultimately show ?thesis using inv by (simp add: lifecycle_inv_def)
qed

lemma step_inv:
  assumes "step w a w'" and "lifecycle_inv ds w"
  shows "lifecycle_inv (ds @ returned w a) w'"
  using assms
proof (induction rule: step.induct)
  case (launch w mt executable args cwd pl d w')
  from launch(3,1,2) have "lifecycle_inv (ds @ [d]) w'" by (rule lifecycle_launch)
  then show ?case by (simp add: run_service_new(1) [OF launch(2)])
next
  case (event w e)
  then show ?case by (simp add: lifecycle_event)
next
  case (finalize_gone w p ex fs)
  then show ?case by (simp add: lifecycle_finalize_return)
next
  case (finalize_race w p ex fs n)
  then show ?case by (simp add: lifecycle_finalize_return)
next
  case (finalize_signal w p ex fs n)
  then show ?case by (simp add: lifecycle_finalize_signal)
next
  case (resume w p ex)
  then show ?case by (simp add: lifecycle_resume)
qed

section \<open>Phases and steps\<close>


lemma phase_of_same:
  "process_at w' p = process_at w p \<Longrightarrow> deferred_at w' d = deferred_at w d \<Longrightarrow>
   phase_of w' d p = phase_of w d p"
  by (simp add: phase_of_def)

text \<open>The phase under the invariant: a failed readiness belongs to a reaped child.\<close>

lemma phase_of_inv:
  assumes "service_inv w d p"
  shows "phase_of w d p =
     (if pid (process_at w p) = None then Terminated
      else if signals_sent (process_at w p) = [ascii ''TERM''] then Terminating
      else if called (deferred_at w d) then Ready else Starting)"
  using assms by (auto simp: phase_of_def service_inv_def)

section \<open>What a step does to a service\<close>

text \<open>A launch leaves the services that exist alone.\<close>

lemma launch_service_same:
  assumes inv: "lifecycle_inv ds w" and p: "p < length ds"
    and run: "run_service w mt executable args cwd pl = Inr (d, w')"
  shows "process_at w' p = process_at w p" and "deferred_at w' (ds ! p) = deferred_at w (ds ! p)"
    and "deferred_at w' (exited (proto (process_at w p))) =
         deferred_at w (exited (proto (process_at w p)))"
proof -
  from inv have sinv: "session_inv ds w" by (rule lifecycle_inv_session)
  from inv p have valid: "valid_process w p" by (simp add: lifecycle_inv_valid)
  then show "process_at w' p = process_at w p" by (rule run_service_old(2) [OF run])
  from protocol_inv_refs [OF session_inv_protocol [OF sinv valid]]
  have "valid_ref w (ds ! p)" "valid_ref w (exited (proto (process_at w p)))" by simp_all
  then show "deferred_at w' (ds ! p) = deferred_at w (ds ! p)"
    and "deferred_at w' (exited (proto (process_at w p))) =
         deferred_at w (exited (proto (process_at w p)))"
    by (simp_all add: run_service_old(1) [OF run])
qed

text \<open>
  An event leaves the readiness \<^verbatim>\<open>Deferred\<close> of a service as it is or fires it; it
  fires it with a failure exactly when the event is the exit of the service's child.
\<close>

lemma event_readiness:
  fixes w :: "'a session_scheme"
  assumes inv: "session_inv ds w" and valid: "valid_process w p"
    and launch: "launch_inv w (ds ! p) p" and en: "enabled w e"
  shows "deferred_at (reactor_step w e) (ds ! p) = deferred_at w (ds ! p) \<or>
         \<not> called (deferred_at w (ds ! p)) \<and> called (deferred_at (reactor_step w e) (ds ! p)) \<and>
         (is_failure (deferred_at (reactor_step w e) (ds ! p)) \<longleftrightarrow>
            (\<exists>reason. e = ChildExited p reason))"
  using inv en
proof (cases rule: reactor_step_cases)
  case handled
  from react_readiness [OF inv valid en handled] show ?thesis
    by (elim disjE conjE exE) simp_all
next
  case raised
  then show ?thesis by simp
qed

lemma enabled_process:
  fixes w :: "'a session_scheme"
  shows "enabled w e \<Longrightarrow> valid_process w (event_process e) \<and> pid (process_at w (event_process e)) \<noteq> None"
  by (cases e) simp_all

text \<open>An event about one transport leaves the services of the others alone.\<close>

lemma event_other_service:
  fixes w :: "'a session_scheme"
  assumes inv: "session_inv ds w" and valid: "valid_process w p" and en: "enabled w e"
    and other: "event_process e \<noteq> p"
  shows "process_at (reactor_step w e) p = process_at w p"
    and "deferred_at (reactor_step w e) (ds ! p) = deferred_at w (ds ! p)"
    and "deferred_at (reactor_step w e) (exited (proto (process_at w p))) =
         deferred_at w (exited (proto (process_at w p)))"
proof -
  let ?q = "event_process e"
  from en have q: "valid_process w ?q" by (simp add: enabled_process)
  note touch = reactor_step_touches [OF inv en]
  from touch other show "process_at (reactor_step w e) p = process_at w p"
    by (simp add: touches_process_def)
  from inv have len: "length ds = length (processes w)" by (rule session_inv_length)
  from inv have "distinct (session_refs ds (processes w))" by (simp add: session_inv_def)
  note apart = session_refs_apart [OF this len]
  from apart(1,2) [of p ?q] apart(1,3) [of ?q p] valid q other
  have "ds ! p \<noteq> exited (proto (process_at w ?q))" "ds ! p \<noteq> ds ! ?q"
    "ds ! ?q \<noteq> exited (proto (process_at w p))"
    "exited (proto (process_at w ?q)) \<noteq> exited (proto (process_at w p))"
    by (simp_all add: valid_process_def process_at_def)
  with protocol_inv_protocol_refs [OF session_inv_protocol [OF inv q]]
  have "ds ! p \<notin> protocol_refs (proto (process_at w ?q))"
    "exited (proto (process_at w p)) \<notin> protocol_refs (proto (process_at w ?q))"
    by auto
  with touch show "deferred_at (reactor_step w e) (ds ! p) = deferred_at w (ds ! p)"
    and "deferred_at (reactor_step w e) (exited (proto (process_at w p))) =
         deferred_at w (exited (proto (process_at w p)))"
    by (simp_all add: touches_process_def)
qed

text \<open>
  What a step does to a service that exists: nothing, or it is an event about its
  transport, or it is the finalizer of the service, which delivers \<^verbatim>\<open>TERM\<close> and waits.
\<close>

lemma step_service:
  assumes step: "step w a w'" and inv: "lifecycle_inv ds w" and p: "p < length ds"
  obtains (untouched) "process_at w' p = process_at w p"
      "deferred_at w' (ds ! p) = deferred_at w (ds ! p)"
      "deferred_at w' (exited (proto (process_at w p))) =
       deferred_at w (exited (proto (process_at w p)))"
    | (event) e where "a = Event e" "enabled w e" "event_process e = p" "w' = reactor_step w e"
    | (signal) ex fs n where "a = Finalize" "waiting w = None"
      "finalizers w = CleanupServiceProcess p ex # fs"
      "pid (process_at w p) = Some n" "\<not> os_gone (process_at w p)"
      "w' = (cleanup_blocked (w\<lparr>finalizers := fs\<rparr>) p n)
              \<lparr>waiting := Some (CleanupServiceProcess p ex)\<rparr>"
  using step
proof (cases rule: step.cases)
  case (launch mt executable args cwd pl d)
  from launch_service_same [OF inv p launch(3)] show ?thesis by (rule untouched)
next
  case (event e)
  from inv have sinv: "session_inv ds w" by (rule lifecycle_inv_session)
  from inv p have valid: "valid_process w p" by (simp add: lifecycle_inv_valid)
  show ?thesis
  proof (cases "event_process e = p")
    case True
    with event show ?thesis by (intro that(2)) simp_all
  next
    case False
    from event_other_service [OF sinv valid event(3) False] event(2) show ?thesis
      by (intro untouched) simp_all
  qed
next
  case (finalize_gone q ex fs)
  then show ?thesis by (intro untouched) simp_all
next
  case (finalize_race q ex fs n)
  then show ?thesis by (intro untouched) simp_all
next
  case (finalize_signal q ex fs n)
  from inv have sinv: "session_inv ds w" by (rule lifecycle_inv_session)
  from sinv finalize_signal(4) have "valid_process (w\<lparr>finalizers := fs\<rparr>) q"
    by (simp add: session_inv_def)
  note facts = cleanup_blocked_facts [OF this]
  show ?thesis
  proof (cases "q = p")
    case True
    with finalize_signal show ?thesis by (intro signal) simp_all
  next
    case False
    with finalize_signal(2) facts show ?thesis by (intro untouched) simp_all
  qed
next
  case (resume q ex)
  then show ?thesis by (intro untouched) simp_all
qed

text \<open>The phase of a service after an event, and after its finalizer has signalled.\<close>

lemma event_phase:
  assumes inv: "lifecycle_inv ds w" and p: "p < length ds" and en: "enabled w e"
  shows "phase_of (reactor_step w e) (ds ! p) p = phase_of w (ds ! p) p \<or>
         phase_step (phase_of w (ds ! p) p) (phase_of (reactor_step w e) (ds ! p) p)"
proof -
  from inv have sinv: "session_inv ds w" by (rule lifecycle_inv_session)
  from inv p have valid: "valid_process w p" by (simp add: lifecycle_inv_valid)
  from inv p have s: "service_inv w (ds ! p) p" by (rule lifecycle_inv_service)
  from lifecycle_event [OF inv en] p
  have s': "service_inv (reactor_step w e) (ds ! p) p" by (rule lifecycle_inv_service)
  from s have "launch_inv w (ds ! p) p" by (simp add: service_inv_def)
  from event_readiness [OF sinv valid this en] show ?thesis
    unfolding phase_of_inv [OF s] phase_of_inv [OF s']
      reactor_step_pid [OF sinv valid en] reactor_step_signals [OF sinv valid en]
    by (auto simp: phase_step_def)
qed

lemma signal_phase:
  assumes inv: "lifecycle_inv ds w" and p: "p < length ds" and idle: "waiting w = None"
    and fs: "finalizers w = CleanupServiceProcess p ex # fs"
    and alive: "pid (process_at w p) = Some n" "\<not> os_gone (process_at w p)"
  defines "w' \<equiv> (cleanup_blocked (w\<lparr>finalizers := fs\<rparr>) p n)
                   \<lparr>waiting := Some (CleanupServiceProcess p ex)\<rparr>"
  shows "phase_of w (ds ! p) p \<in> {Starting, Ready}" and "phase_of w' (ds ! p) p = Terminating"
    and "signals_sent (process_at w p) = []"
    and "signals_sent (process_at w' p) = [ascii ''TERM'']"
proof -
  from inv p have valid: "valid_process (w\<lparr>finalizers := fs\<rparr>) p"
    by (simp add: lifecycle_inv_valid)
  note facts = cleanup_blocked_facts [OF valid]
  from inv p have s: "service_inv w (ds ! p) p" by (rule lifecycle_inv_service)
  with fs show none: "signals_sent (process_at w p) = []" by (simp add: service_inv_def)
  from none alive show "phase_of w (ds ! p) p \<in> {Starting, Ready}"
    by (simp add: phase_of_inv [OF s])
  from none facts show sent: "signals_sent (process_at w' p) = [ascii ''TERM'']"
    by (simp add: w'_def)
  from lifecycle_finalize_signal [OF inv idle fs alive] p
  have "service_inv w' (ds ! p) p" unfolding w'_def by (rule lifecycle_inv_service)
  from phase_of_inv [OF this] sent alive facts show "phase_of w' (ds ! p) p = Terminating"
    by (simp add: w'_def)
qed

text \<open>A step never moves the phase of a service backwards.\<close>

lemma step_phase:
  assumes step: "step w a w'" and inv: "lifecycle_inv ds w" and p: "p < length ds"
  shows "phase_of w' (ds ! p) p = phase_of w (ds ! p) p \<or>
         phase_step (phase_of w (ds ! p) p) (phase_of w' (ds ! p) p)"
  using step inv p
proof (cases rule: step_service)
  case untouched
  from phase_of_same [OF untouched(1,2)] show ?thesis by simp
next
  case (event e)
  from event_phase [OF inv p event(2)] event(4) show ?thesis by simp
next
  case (signal ex fs n)
  from signal_phase(1,2) [OF inv p signal(2-5)] signal(6) show ?thesis
    by (auto simp: phase_step_def)
qed

section \<open>Runs\<close>

lemma initial_simps [simp]:
  "deferreds (initial platform_name python environ) = []"
  "processes (initial platform_name python environ) = []"
  "finalizers (initial platform_name python environ) = []"
  "sys_stdout (initial platform_name python environ) = []"
  "os_environ (initial platform_name python environ) = environ"
  "sys_platform (initial platform_name python environ) = platform_name"
  "sys_executable (initial platform_name python environ) = python"
  "os_next_pid (initial platform_name python environ) = 1000"
  "os_refuses_spawn (initial platform_name python environ) = False"
  "waiting (initial platform_name python environ) = None"
  by (simp_all add: initial_def)

lemma lifecycle_inv_initial: "lifecycle_inv [] (initial platform_name python environ)"
  by (simp add: lifecycle_inv_def session_inv_def store_wf_def session_refs_def)

lemma run_inv: "run w0 acts ds w \<Longrightarrow> lifecycle_inv ds0 w0 \<Longrightarrow> lifecycle_inv (ds0 @ ds) w"
proof (induction rule: run.induct)
  case (run_step w0 acts ds w a w')
  from step_inv [OF run_step(2) run_step(3) [OF run_step(4)]] show ?case by simp
qed simp

lemma run_single: "step w a w' \<Longrightarrow> run w [a] (returned w a) w'"
  using run_step [OF run_Nil, of w a w'] by simp

lemma run_append:
  "run w1 bs ds' w2 \<Longrightarrow> run w0 acts ds w1 \<Longrightarrow> run w0 (acts @ bs) (ds @ ds') w2"
proof (induction rule: run.induct)
  case (run_step w1 bs ds' w a w')
  from run.run_step [OF run_step(3) [OF run_step(4)] run_step(2)] show ?case by simp
qed simp

text \<open>The reactor handling a feasible sequence of events, as a run.\<close>

lemma run_events:
  assumes "lifecycle_inv ds w" and "feasible w es"
  shows "run w (map Event es) [] (reactor_run w es)"
    and "lifecycle_inv ds (reactor_run w es)"
    and "waiting (reactor_run w es) = waiting w"
  using assms(2)
proof (induction es rule: rev_induct)
  case Nil
  {
    case 1 show ?case by (simp add: run_Nil)
  next
    case 2 from assms(1) show ?case by simp
  next
    case 3 show ?case by simp
  }
next
  case (snoc e es)
  {
    case 1
    then have f: "feasible w es" and en: "enabled (reactor_run w es) e" by simp_all
    from run_step [OF snoc(1) [OF f] step.event [OF en]] show ?case by simp
  next
    case 2
    then have f: "feasible w es" and en: "enabled (reactor_run w es) e" by simp_all
    from lifecycle_event [OF snoc(2) [OF f] en] show ?case by simp
  next
    case 3
    then have f: "feasible w es" and en: "enabled (reactor_run w es) e" by simp_all
    from reactor_step_finalizers(2) [OF lifecycle_inv_session [OF snoc(2) [OF f]] en]
    have "waiting (reactor_step (reactor_run w es) e) = waiting (reactor_run w es)"
      by (rule waiting_more)
    with snoc(3) [OF f] show ?case by simp
  }
qed

text \<open>The first launch of a session.\<close>

lemma launched_once:
  "\<exists>w. step (initial platform_name python environ) (Launch mt executable args cwd pl) w \<and>
        lifecycle_inv [0] w \<and> waiting w = None \<and>
        finalizers w = [CleanupServiceProcess 0 1] \<and>
        pid (process_at w 0) = Some 1000 \<and> os_gone (process_at w 0) = False \<and>
        signals_sent (process_at w 0) = [] \<and> called (deferred_at w 0) = False \<and>
        phase_of w 0 0 = Starting \<and> os_refuses_spawn w = False"
proof -
  let ?w0 = "initial platform_name python environ"
  from run_service_Inr_iff [of ?w0 mt executable args cwd pl] obtain d w
    where run: "run_service ?w0 mt executable args cwd pl = Inr (d, w)"
    by auto
  note new = run_service_new [OF run]
  from new(1) have d: "d = 0" by simp
  have step: "step ?w0 (Launch mt executable args cwd pl) w"
    using run by (intro step.launch) simp_all
  from step_inv [OF step lifecycle_inv_initial] have inv: "lifecycle_inv [0] w" by simp
  from new(2) have proc: "process_at w 0 = launched_process ?w0 mt executable args cwd pl"
    by (simp add: process_at_def)
  from new(3) d have df: "deferred_at w 0 = Deferred\<lparr>callbacks := [process_callback 0]\<rparr>"
    by simp
  have idle: "waiting w = None" by (simp add: waiting_more [OF run_service_old(9) [OF run]])
  from proc df have "phase_of w 0 0 = Starting" by (simp add: phase_of_def)
  moreover from run run_service_eq [of ?w0 mt executable args cwd pl]
  have "os_refuses_spawn w = False" by auto
  ultimately show ?thesis using step inv idle new(6) d proc df
    by (intro exI [of _ w]) simp
qed

text \<open>The finalizer of that service, run while the child lives: it signals and waits.\<close>

lemma signalled_once:
  "\<exists>w w'. step (initial platform_name python environ) (Launch mt executable args cwd pl) w \<and>
        lifecycle_inv [0] w \<and> phase_of w 0 0 = Starting \<and>
        pid (process_at w 0) = Some 1000 \<and> signals_sent (process_at w 0) = [] \<and>
        step w Finalize w' \<and> lifecycle_inv [0] w' \<and>
        waiting w' = Some (CleanupServiceProcess 0 1) \<and> valid_process w' 0 \<and>
        pid (process_at w' 0) = Some 1000 \<and>
        signals_sent (process_at w' 0) = [ascii ''TERM''] \<and> phase_of w' 0 0 = Terminating"
proof -
  from launched_once [of platform_name python environ mt executable args cwd pl] obtain w
    where w: "step (initial platform_name python environ) (Launch mt executable args cwd pl) w"
      "lifecycle_inv [0] w" "phase_of w 0 0 = Starting"
      "pid (process_at w 0) = Some 1000" "signals_sent (process_at w 0) = []"
    and idle: "waiting w = None" and fs: "finalizers w = [CleanupServiceProcess 0 1]"
    and alive: "pid (process_at w 0) = Some 1000" "\<not> os_gone (process_at w 0)"
    by auto
  let ?w' = "(cleanup_blocked (w\<lparr>finalizers := []\<rparr>) 0 1000)
               \<lparr>waiting := Some (CleanupServiceProcess 0 1)\<rparr>"
  from idle fs alive have step: "step w Finalize ?w'" by (rule step.finalize_signal)
  from step_inv [OF step w(2)] have inv': "lifecycle_inv [0] ?w'" by simp
  from w(2) have "valid_process (w\<lparr>finalizers := []\<rparr>) 0"
    by (simp add: lifecycle_inv_valid [symmetric])
  note facts = cleanup_blocked_facts(1,2) [OF this, of 1000 0]
  from facts(2) w(2) have valid': "valid_process ?w' 0"
    by (simp add: lifecycle_inv_valid [symmetric])
  from facts(1) alive(1) have "pid (process_at ?w' 0) = Some 1000" by simp
  with w step inv' valid' signal_phase(2,4) [OF w(2) _ idle fs alive] show ?thesis
    by (intro exI [of _ w] exI [of _ ?w']) simp
qed

text \<open>The child of that service exits before anything else happens.\<close>

lemma exited_once:
  "\<exists>w w'. step (initial platform_name python environ) (Launch mt executable args cwd pl) w \<and>
        lifecycle_inv [0] w \<and> phase_of w 0 0 = Starting \<and>
        step w (Event (ChildExited 0 reason)) w' \<and> lifecycle_inv [0] w' \<and>
        waiting w' = None \<and> finalizers w' = [CleanupServiceProcess 0 1] \<and>
        pid (process_at w' 0) = None \<and> phase_of w' 0 0 = Terminated"
proof -
  from launched_once [of platform_name python environ mt executable args cwd pl] obtain w
    where w: "step (initial platform_name python environ) (Launch mt executable args cwd pl) w"
      "lifecycle_inv [0] w" "phase_of w 0 0 = Starting"
    and idle: "waiting w = None" and fs: "finalizers w = [CleanupServiceProcess 0 1]"
    and alive: "pid (process_at w 0) = Some 1000"
    by auto
  let ?e = "ChildExited 0 reason" and ?w' = "reactor_step w (ChildExited 0 reason)"
  from w(2) have sinv: "session_inv [0] w" and valid: "valid_process w 0"
    by (simp_all add: lifecycle_inv_session lifecycle_inv_valid [symmetric])
  from valid alive have en: "enabled w ?e" by simp
  then have step: "step w (Event ?e) ?w'" by (rule step.event)
  from step_inv [OF step w(2)] have inv': "lifecycle_inv [0] ?w'" by simp
  from reactor_step_pid [OF sinv valid en] have pid': "pid (process_at ?w' 0) = None" by simp
  then have "phase_of ?w' 0 0 = Terminated" by (simp add: phase_of_def)
  moreover from idle have "waiting ?w' = None"
    by (simp add: waiting_more [OF reactor_step_finalizers(2) [OF sinv en]])
  ultimately show ?thesis using w step inv' pid' fs reactor_step_finalizers(1) [OF sinv en]
    by (intro exI [of _ w] exI [of _ ?w']) simp
qed

lemma phase_Terminated_iff: "phase_of w d p = Terminated \<longleftrightarrow> pid (process_at w p) = None"
  by (simp add: phase_of_def)

text \<open>The abstract state after a launch: one more service, in the phase \<^emph>\<open>Starting\<close>.\<close>

lemma phases_launch:
  assumes inv: "lifecycle_inv ds w"
    and run: "run_service w mt executable args cwd pl = Inr (d, w')"
  shows "phases (ds @ [d]) w' = phases ds w @ [Starting]"
proof -
  from inv have len: "length ds = length (processes w)"
    by (intro session_inv_length lifecycle_inv_session)
  have "process_at w' (length ds) = launched_process w mt executable args cwd pl"
    by (simp add: process_at_def run_service_new(2) [OF run] len)
  moreover have "\<not> called (deferred_at w' d)"
    by (simp add: run_service_new(3) [OF run] Deferred_def)
  ultimately have "phase_of w' d (length ds) = Starting" by (simp add: phase_of_def)
  moreover have "phase_of w' ((ds @ [d]) ! p) p = phase_of w (ds ! p) p" if "p < length ds" for p
    using phase_of_same [OF launch_service_same(1,2) [OF inv that run]] that
    by (simp add: nth_append)
  ultimately show ?thesis by (simp add: phases_def)
qed

section \<open>The reactor does not read the finalizer that waits\<close>

text \<open>
  The methods of the protocol and the reaction of the reactor are defined for every
  extension of the session. For the field \<open>waiting\<close> of this theory they commute with
  its update: the reactor does the same whether or not a finalizer waits.
\<close>

lemma stdout_waiting:
  fixes w :: lifecycle
  shows "print_stdout (w\<lparr>waiting := x\<rparr>) s = (print_stdout w s)\<lparr>waiting := x\<rparr>"
    and "write_stdout (w\<lparr>waiting := x\<rparr>) s = (write_stdout w s)\<lparr>waiting := x\<rparr>"
  by (simp_all add: print_stdout_def write_stdout_def)

lemma fire_at_waiting:
  fixes w :: lifecycle
  shows "callback_at (w\<lparr>waiting := x\<rparr>) r v =
           map_sum id (\<lambda>w'. w'\<lparr>waiting := x\<rparr>) (callback_at w r v)"
    and "errback_at (w\<lparr>waiting := x\<rparr>) r e =
           map_sum id (\<lambda>w'. w'\<lparr>waiting := x\<rparr>) (errback_at w r e)"
  by (simp_all add: callback_at_def errback_at_def callback_def errback_def fire_def
                    set_deferred_def and_then_def)

lemma out_received_waiting:
  fixes w :: lifecycle
  shows "out_received self (w\<lparr>waiting := x\<rparr>) data =
           map_sum id (\<lambda>(s, w'). (s, w'\<lparr>waiting := x\<rparr>)) (out_received self w data)"
  by (cases "decode_utf8 data")
     (simp_all add: out_received_def stdout_waiting fire_at_waiting Let_def and_then_def
        split: option.splits sum.splits)

lemma processEnded_waiting:
  fixes w :: lifecycle
  shows "processEnded self (w\<lparr>waiting := x\<rparr>) reason =
           map_sum id (\<lambda>(s, w'). (s, w'\<lparr>waiting := x\<rparr>)) (processEnded self w reason)"
  by (cases "magic_seen self")
     (simp_all add: processEnded_def fire_at_waiting and_then_def split: sum.splits)

lemma childDataReceived_waiting:
  fixes w :: lifecycle
  shows "childDataReceived self (w\<lparr>waiting := x\<rparr>) childFD data =
           map_sum id (\<lambda>(s, w'). (s, w'\<lparr>waiting := x\<rparr>))
             (childDataReceived self w childFD data)"
  by (cases "decode_utf8 data")
     (simp_all add: childDataReceived_def out_received_waiting err_received_def
        ProcessProtocol_childDataReceived_def stdout_waiting and_then_def)

lemma set_process_waiting:
  fixes w :: lifecycle
  shows "set_process (w\<lparr>waiting := x\<rparr>) p y = (set_process w p y)\<lparr>waiting := x\<rparr>"
  by (simp add: set_process_def)

lemma react_waiting:
  fixes w :: lifecycle
  shows "react (w\<lparr>waiting := x\<rparr>) e = map_sum id (\<lambda>w'. w'\<lparr>waiting := x\<rparr>) (react w e)"
  by (cases e)
     (simp_all add: on_protocol_def childDataReceived_waiting processEnded_waiting
        set_process_waiting and_then_def split: sum.splits prod.splits)

lemma reactor_step_waiting:
  fixes w :: lifecycle
  shows "reactor_step (w\<lparr>waiting := x\<rparr>) e = (reactor_step w e)\<lparr>waiting := x\<rparr>"
  by (simp add: reactor_step_def react_waiting split: sum.splits)

lemma enabled_waiting [simp]:
  fixes w :: lifecycle
  shows "enabled (w\<lparr>waiting := x\<rparr>) e = enabled w e"
  by (cases e) simp_all

lemma reactor_run_waiting:
  fixes w :: lifecycle
  shows "reactor_run (w\<lparr>waiting := x\<rparr>) es = (reactor_run w es)\<lparr>waiting := x\<rparr>"
    and "feasible (w\<lparr>waiting := x\<rparr>) es = feasible w es"
  by (induction es arbitrary: w) (simp_all add: reactor_step_waiting)

lemma waiting_same:
  fixes w :: lifecycle
  shows "waiting w = x \<Longrightarrow> w\<lparr>waiting := x\<rparr> = w"
  by (cases w) simp

section \<open>The return of a finalizer that waits\<close>

lemma resume_run:
  assumes inv: "lifecycle_inv ds w" and wait: "waiting w = Some (CleanupServiceProcess p ex)"
    and feasible: "feasible w es" and exit: "list_ex (is_exit p) es"
  defines "w1 \<equiv> reactor_run w (until_exit p es)"
  shows "run w (map Event (until_exit p es) @ [Resume]) []
           (print_stdout (w1\<lparr>waiting := None\<rparr>) goodbye_message)"
    and "lifecycle_inv ds (print_stdout (w1\<lparr>waiting := None\<rparr>) goodbye_message)"
    and "pid (process_at w1 p) = None"
proof -
  let ?es = "until_exit p es"
  from inv have sinv: "session_inv ds w" by (rule lifecycle_inv_session)
  from inv wait have ok: "valid_process w p" "ex = exited (proto (process_at w p))"
    by (simp_all add: lifecycle_inv_def)
  from feasible have f1: "feasible w ?es" by (rule feasible_until_exit)
  note r = run_events [OF inv f1] and keep = reactor_run_facts(1,2) [OF sinv f1, of p]
  from sinv ok(1) feasible exit show pid1: "pid (process_at w1 p) = None"
    unfolding w1_def by (rule reactor_run_until_exit_pid)
  from session_inv_pid [OF lifecycle_inv_session [OF r(2)], of p] keep ok pid1
  have "called (deferred_at w1 ex)" by (simp add: w1_def)
  with r(3) wait
  have "step w1 Resume (print_stdout (w1\<lparr>waiting := None\<rparr>) goodbye_message)"
    unfolding w1_def by (intro step.resume) simp_all
  from run_step [OF r(1) this [unfolded w1_def]]
  show "run w (map Event ?es @ [Resume]) [] (print_stdout (w1\<lparr>waiting := None\<rparr>) goodbye_message)"
    by (simp add: w1_def)
  from r(2) show "lifecycle_inv ds (print_stdout (w1\<lparr>waiting := None\<rparr>) goodbye_message)"
    unfolding w1_def by (rule lifecycle_resume)
qed

section \<open>The life of a session\<close>

text \<open>
  C5: The invariant of a session's life. In every state a session reaches from its start
  by launches, events, finalizers and their resumption, the invariant of the session
  holds for the \<^verbatim>\<open>Deferred\<close>s the launches returned; every service has a readiness
  \<^verbatim>\<open>Deferred\<close> that is pending with the one callback of \<^verbatim>\<open>run_service\<close> or has fired with
  the transport or with \<^verbatim>\<open>Exception("Service failed.")\<close>, and has failed only if the child
  was reaped; every process was sent nothing or the one signal \<^verbatim>\<open>TERM\<close>, and nothing as
  long as its finalizer is registered; no transport has two finalizers.
\<close>

theorem lifecycle_inv_reachable:
  "run (initial platform_name python environ) acts ds w \<Longrightarrow> lifecycle_inv ds w"
  using run_inv [OF _ lifecycle_inv_initial] by simp

theorem lifecycle_inv_reachable_witness:
  "\<exists>w. run (initial (ascii ''linux'') (ascii ''python3'') Map.empty)
          [Launch (ascii ''READY'') (ascii ''python3'') [] None False] [0] w \<and>
        lifecycle_inv [0] w"
proof -
  let ?w0 = "initial (ascii ''linux'') (ascii ''python3'') Map.empty"
  from launched_once [of "ascii ''linux''" "ascii ''python3''" Map.empty "ascii ''READY''"
      "ascii ''python3''" "[]" None False]
  obtain w where "step ?w0 (Launch (ascii ''READY'') (ascii ''python3'') [] None False) w"
    by auto
  from run_single [OF this]
  have run: "run ?w0 [Launch (ascii ''READY'') (ascii ''python3'') [] None False] [0] w"
    by simp
  from lifecycle_inv_reachable [OF run] run show ?thesis by auto
qed

text \<open>
  C6: The session refines the machine of the phases. With the list of the phases of its
  services as the abstract state, every step of a session that satisfies the invariant
  is a step of the abstract machine: a launch adds a service in the phase \<^emph>\<open>Starting\<close>
  and leaves the others, and every other step leaves each service in its phase or
  moves it along an arrow of \<open>phase_step\<close>.
\<close>

theorem lifecycle_refines_phases:
  assumes step: "step w a w'" and inv: "lifecycle_inv ds w"
  shows "system_step (phases ds w) (phases (ds @ returned w a) w')"
proof (cases "\<exists>mt executable args cwd pl. a = Launch mt executable args cwd pl")
  case True
  then obtain mt executable args cwd pl where a: "a = Launch mt executable args cwd pl"
    by auto
  from step obtain d where run: "run_service w mt executable args cwd pl = Inr (d, w')"
    unfolding a by (rule step_LaunchE)
  from phases_launch [OF inv run] a show ?thesis
    by (simp add: system_step_def run_service_new(1) [OF run])
next
  case False
  then have "returned w a = []" by (cases a) simp_all
  moreover have "phase_of w (ds ! p) p = phase_of w' (ds ! p) p \<or>
      phase_step (phase_of w (ds ! p) p) (phase_of w' (ds ! p) p)" if "p < length ds" for p
    using step_phase [OF step inv that] by auto
  ultimately show ?thesis
    by (simp add: system_step_def phases_def list_all2_conv_all_nth)
qed

theorem lifecycle_refines_phases_witness:
  "\<exists>w w'. step (initial (ascii ''linux'') (ascii ''python3'') Map.empty)
            (Launch (ascii ''READY'') (ascii ''python3'') [] None False) w \<and>
          step w Finalize w' \<and> phases [0] w = [Starting] \<and> phases [0] w' = [Terminating] \<and>
          system_step [Starting] [Terminating]"
proof -
  from signalled_once [of "ascii ''linux''" "ascii ''python3''" Map.empty "ascii ''READY''"
      "ascii ''python3''" "[]" None False]
  obtain w w' where w: "step (initial (ascii ''linux'') (ascii ''python3'') Map.empty)
        (Launch (ascii ''READY'') (ascii ''python3'') [] None False) w"
      "lifecycle_inv [0] w" "step w Finalize w'"
    and ph: "phase_of w 0 0 = Starting" "phase_of w' 0 0 = Terminating"
    by auto
  from ph have "phases [0] w = [Starting]" "phases [0] w' = [Terminating]"
    by (simp_all add: phases_def)
  with lifecycle_refines_phases [OF w(3,2)] w show ?thesis by auto
qed



text \<open>
  C17: No signal for a process that has exited. A step that changes what a process was
  sent is the run of its finalizer, on a transport that has its \<^verbatim>\<open>pid\<close> and whose process
  the operating system still knows, in the phase \<^emph>\<open>Starting\<close> or \<^emph>\<open>Ready\<close>; the process was
  sent nothing before, and the one signal \<^verbatim>\<open>TERM\<close> after it. So a process is signalled
  at most once, and never after the reactor has reaped it.
\<close>

theorem signal_only_by_finalizer_of_live_process:
  assumes step: "step w a w'" and inv: "lifecycle_inv ds w" and p: "p < length ds"
    and changed: "signals_sent (process_at w' p) \<noteq> signals_sent (process_at w p)"
  shows "a = Finalize \<and> pid (process_at w p) \<noteq> None \<and> \<not> os_gone (process_at w p) \<and>
         phase_of w (ds ! p) p \<in> {Starting, Ready} \<and>
         signals_sent (process_at w p) = [] \<and>
         signals_sent (process_at w' p) = [ascii ''TERM'']"
  using step inv p
proof (cases rule: step_service)
  case untouched
  with changed show ?thesis by simp
next
  case (event e)
  from inv p have "valid_process w p" by (simp add: lifecycle_inv_valid)
  from reactor_step_signals [OF lifecycle_inv_session [OF inv] this event(2)] changed event(4)
  show ?thesis by simp
next
  case (signal ex fs n)
  from signal_phase(1,3,4) [OF inv p signal(2-5)] signal show ?thesis by simp
qed

theorem signal_only_by_finalizer_of_live_process_witness:
  "\<exists>w w'. step (initial (ascii ''linux'') (ascii ''python3'') Map.empty)
            (Launch (ascii ''READY'') (ascii ''python3'') [] None False) w \<and>
          step w Finalize w' \<and> pid (process_at w 0) = Some 1000 \<and>
          signals_sent (process_at w 0) = [] \<and>
          signals_sent (process_at w' 0) = [ascii ''TERM'']"
proof -
  from signalled_once [of "ascii ''linux''" "ascii ''python3''" Map.empty "ascii ''READY''"
      "ascii ''python3''" "[]" None False]
  obtain w w' where w: "step (initial (ascii ''linux'') (ascii ''python3'') Map.empty)
        (Launch (ascii ''READY'') (ascii ''python3'') [] None False) w"
      "lifecycle_inv [0] w" "step w Finalize w'" "pid (process_at w 0) = Some 1000"
    and sent: "signals_sent (process_at w 0) = []"
      "signals_sent (process_at w' 0) = [ascii ''TERM'']"
    by auto
  from signal_only_by_finalizer_of_live_process [OF w(3,2), of 0] sent w show ?thesis
    by auto
qed

text \<open>
  C31: A terminated service is inert. Once the reactor has reaped the child of a
  service, no step of the session changes its transport, its protocol object, its
  readiness \<^verbatim>\<open>Deferred\<close> or its \<^verbatim>\<open>exited\<close> \<^verbatim>\<open>Deferred\<close>: no event is delivered to it, and
  its finalizer does not signal it.
\<close>

theorem terminated_service_is_inert:
  assumes step: "step w a w'" and inv: "lifecycle_inv ds w" and p: "p < length ds"
    and gone: "phase_of w (ds ! p) p = Terminated"
  shows "process_at w' p = process_at w p \<and>
         deferred_at w' (ds ! p) = deferred_at w (ds ! p) \<and>
         deferred_at w' (exited (proto (process_at w p))) =
           deferred_at w (exited (proto (process_at w p)))"
  using step inv p
proof (cases rule: step_service)
  case untouched
  then show ?thesis by simp
next
  case (event e)
  from enabled_process [OF event(2)] gone event(3) show ?thesis
    by (simp add: phase_Terminated_iff)
next
  case (signal ex fs n)
  with gone show ?thesis by (simp add: phase_Terminated_iff)
qed

theorem terminated_service_is_inert_witness:
  "\<exists>w w' w''. step (initial (ascii ''linux'') (ascii ''python3'') Map.empty)
            (Launch (ascii ''READY'') (ascii ''python3'') [] None False) w \<and>
          step w (Event (ChildExited 0 ProcessDone)) w' \<and> step w' Finalize w'' \<and>
          process_at w'' 0 = process_at w' 0 \<and> deferred_at w'' 0 = deferred_at w' 0"
proof -
  from exited_once [of "ascii ''linux''" "ascii ''python3''" Map.empty "ascii ''READY''"
      "ascii ''python3''" "[]" None False ProcessDone]
  obtain w w' where w: "step (initial (ascii ''linux'') (ascii ''python3'') Map.empty)
        (Launch (ascii ''READY'') (ascii ''python3'') [] None False) w"
      "step w (Event (ChildExited 0 ProcessDone)) w'" "lifecycle_inv [0] w'"
    and idle: "waiting w' = None" and fs: "finalizers w' = [CleanupServiceProcess 0 1]"
    and gone: "pid (process_at w' 0) = None" "phase_of w' 0 0 = Terminated"
    by auto
  from idle fs gone(1)
  have step: "step w' Finalize (print_stdout (w'\<lparr>finalizers := []\<rparr>) goodbye_message)"
    by (rule step.finalize_gone)
  from terminated_service_is_inert [OF step w(3), of 0] gone(2) w step show ?thesis
    by (intro exI [of _ w] exI [of _ w']
          exI [of _ "print_stdout (w'\<lparr>finalizers := []\<rparr>) goodbye_message"]) simp
qed



text \<open>
  C10: A finalizer that waits goes on when the child exits. When a finalizer waits in
  \<^verbatim>\<open>blockon\<close> and the events the reactor handles include the exit of its child, the
  events up to that exit and the resumption of the finalizer are a run of the session;
  at its end no finalizer waits, the transport has no \<^verbatim>\<open>pid\<close> and \<^verbatim>\<open>exited, goodbye\<close> is
  the last line printed.
\<close>

theorem waiting_finalizer_resumes:
  assumes inv: "lifecycle_inv ds w" and wait: "waiting w = Some (CleanupServiceProcess p ex)"
    and feasible: "feasible w es" and exit: "list_ex (is_exit p) es"
  shows "\<exists>w'. run w (map Event (until_exit p es) @ [Resume]) [] w' \<and> waiting w' = None \<and>
           lifecycle_inv ds w' \<and> pid (process_at w' p) = None \<and>
           suffix (goodbye_message @ [10]) (sys_stdout w')"
  using resume_run [OF assms]
  by (intro exI [of _ "print_stdout ((reactor_run w (until_exit p es))\<lparr>waiting := None\<rparr>)
                         goodbye_message"])
     (simp add: suffix_def)

theorem waiting_finalizer_resumes_witness:
  "\<exists>w w' w''. step (initial (ascii ''linux'') (ascii ''python3'') Map.empty)
            (Launch (ascii ''READY'') (ascii ''python3'') [] None False) w \<and>
          step w Finalize w' \<and> waiting w' = Some (CleanupServiceProcess 0 1) \<and>
          run w' [Event (ChildExited 0 ProcessDone), Resume] [] w'' \<and>
          waiting w'' = None \<and> pid (process_at w'' 0) = None"
proof -
  from signalled_once [of "ascii ''linux''" "ascii ''python3''" Map.empty "ascii ''READY''"
      "ascii ''python3''" "[]" None False]
  obtain w w' where w: "step (initial (ascii ''linux'') (ascii ''python3'') Map.empty)
        (Launch (ascii ''READY'') (ascii ''python3'') [] None False) w"
      "step w Finalize w'" "waiting w' = Some (CleanupServiceProcess 0 1)"
    and inv: "lifecycle_inv [0] w'"
    and alive: "valid_process w' 0" "pid (process_at w' 0) = Some 1000"
    by auto
  from alive have "feasible w' [ChildExited 0 ProcessDone]" by simp
  from waiting_finalizer_resumes [OF inv w(3) this] w show ?thesis
    by (auto simp: until_exit_def)
qed


text \<open>The finalizer of a live process, as steps.\<close>

lemma signal_then_resume:
  assumes inv: "lifecycle_inv ds w" and idle: "waiting w = None"
    and fs: "finalizers w = CleanupServiceProcess p ex # fs"
    and alive: "pid (process_at w p) = Some n" "\<not> os_gone (process_at w p)"
    and f: "feasible (cleanup_blocked (w\<lparr>finalizers := fs\<rparr>) p n) es"
    and exit: "list_ex (is_exit p) es"
  shows "run w (Finalize # map Event (until_exit p es) @ [Resume]) []
           (print_stdout (reactor_run (cleanup_blocked (w\<lparr>finalizers := fs\<rparr>) p n)
                            (until_exit p es)) goodbye_message)"
proof -
  let ?b = "cleanup_blocked (w\<lparr>finalizers := fs\<rparr>) p n" and ?f = "CleanupServiceProcess p ex"
  let ?es = "until_exit p es"
  from lifecycle_finalize_signal [OF inv idle fs alive]
  have inv1: "lifecycle_inv ds (?b\<lparr>waiting := Some ?f\<rparr>)" .
  from idle have "reactor_run (?b\<lparr>waiting := Some ?f\<rparr>) ?es\<lparr>waiting := None\<rparr> =
      reactor_run ?b ?es"
    by (simp add: reactor_run_waiting(1) [symmetric] waiting_same)
  with resume_run(1) [OF inv1 _ _ exit, of ex] f
  have "run (?b\<lparr>waiting := Some ?f\<rparr>) (map Event ?es @ [Resume]) []
          (print_stdout (reactor_run ?b ?es) goodbye_message)"
    by (simp add: reactor_run_waiting(2))
  from run_append [OF this run_single [OF step.finalize_signal [OF idle fs alive]]]
  show ?thesis by simp
qed

text \<open>
  C12: The steps of a finalizer are \<^verbatim>\<open>_cleanup_service_process\<close>. When pytest takes the
  finalizer registered last and the call of \<^verbatim>\<open>_cleanup_service_process\<close> returns, the
  state it returns in is reached by steps of the session: the step \<open>Finalize\<close> alone
  when the transport has no \<^verbatim>\<open>pid\<close> or the process is gone, and otherwise \<open>Finalize\<close>,
  the events up to and including the exit of the child, and \<open>Resume\<close>; the events the
  call has not handled are those after the exit.
\<close>

theorem finalizer_as_steps:
  assumes inv: "lifecycle_inv ds w" and idle: "waiting w = None"
    and fs: "finalizers w = CleanupServiceProcess p ex # fs"
    and feasible: "\<forall>n. pid (process_at w p) = Some n \<longrightarrow>
                    feasible (cleanup_blocked (w\<lparr>finalizers := fs\<rparr>) p n) es"
    and ret: "cleanup_service_process (w\<lparr>finalizers := fs\<rparr>) p ex es = Some r"
  shows "\<exists>w'. (if pid (process_at w p) \<noteq> None \<and> \<not> os_gone (process_at w p)
               then r = Inr (w', after_exit p es) \<and>
                    run w (Finalize # map Event (until_exit p es) @ [Resume]) [] w'
               else r = Inr (w', es) \<and> run w [Finalize] [] w')"
proof -
  let ?w0 = "w\<lparr>finalizers := fs\<rparr>" and ?f = "CleanupServiceProcess p ex"
  from inv have sinv: "session_inv ds w" by (rule lifecycle_inv_session)
  from sinv fs have ok: "valid_process w p" "ex = exited (proto (process_at w p))"
    by (simp_all add: session_inv_def)
  consider (gone) "pid (process_at w p) = None"
    | (race) n where "pid (process_at w p) = Some n" "os_gone (process_at w p)"
    | (alive) n where "pid (process_at w p) = Some n" "\<not> os_gone (process_at w p)"
    by (cases "pid (process_at w p)") auto
  then show ?thesis
  proof cases
    case gone
    from run_single [OF step.finalize_gone [OF idle fs gone]] ret gone show ?thesis
      by (auto simp: cleanup_gone)
  next
    case (race n)
    from run_single [OF step.finalize_race [OF idle fs race]] ret race show ?thesis
      by (auto simp: cleanup_race)
  next
    case (alive n)
    from sinv fs have sinv0: "session_inv ds ?w0" by (rule session_inv_pop)
    from alive feasible have f: "feasible (cleanup_blocked ?w0 p n) es" by simp
    from cleanup_waits [OF sinv0, of p n es] ok alive f ret
    have exit: "list_ex (is_exit p) es"
      and r: "r = Inr (print_stdout (reactor_run (cleanup_blocked ?w0 p n) (until_exit p es))
                         goodbye_message, after_exit p es)"
      by (simp_all split: if_splits)
    from signal_then_resume [OF inv idle fs alive f exit] r alive show ?thesis by auto
  qed
qed

theorem finalizer_as_steps_witness:
  "\<exists>w w'. step (initial (ascii ''linux'') (ascii ''python3'') Map.empty)
            (Launch (ascii ''READY'') (ascii ''python3'') [] None False) w \<and>
          cleanup_service_process (w\<lparr>finalizers := []\<rparr>) 0 1 [ChildExited 0 ProcessDone] =
            Some (Inr (w', [])) \<and>
          run w [Finalize, Event (ChildExited 0 ProcessDone), Resume] [] w'"
proof -
  from launched_once [of "ascii ''linux''" "ascii ''python3''" Map.empty "ascii ''READY''"
      "ascii ''python3''" "[]" None False]
  obtain w where w: "step (initial (ascii ''linux'') (ascii ''python3'') Map.empty)
        (Launch (ascii ''READY'') (ascii ''python3'') [] None False) w"
    and inv: "lifecycle_inv [0] w" and idle: "waiting w = None"
    and fs: "finalizers w = [CleanupServiceProcess 0 1]"
    and alive: "pid (process_at w 0) = Some 1000" "\<not> os_gone (process_at w 0)"
    by auto
  let ?es = "[ChildExited 0 ProcessDone]" and ?w0 = "w\<lparr>finalizers := []\<rparr>"
  from inv have valid: "valid_process ?w0 0" by (simp add: lifecycle_inv_valid [symmetric])
  from cleanup_blocked_facts(1,2) [OF valid, of 1000 0] alive valid
  have f: "\<forall>n. pid (process_at w 0) = Some n \<longrightarrow> feasible (cleanup_blocked ?w0 0 n) ?es"
    by simp
  from lifecycle_inv_session [OF inv] fs have sinv0: "session_inv [0] ?w0"
    by (rule session_inv_pop)
  from inv fs have ex: "exited (proto (process_at w 0)) = 1"
    by (simp add: lifecycle_inv_def session_inv_def)
  from cleanup_waits [OF sinv0 valid, of 1000 ?es] alive f ex obtain r
    where r: "cleanup_service_process ?w0 0 1 ?es = Some r"
    by auto
  from finalizer_as_steps [OF inv idle fs f r] alive r w show ?thesis
    by (auto simp: until_exit_def after_exit_def)
qed

text \<open>
  C13: The type of the returned \<^verbatim>\<open>Deferred\<close>. In every state a session reaches, the
  \<^verbatim>\<open>Deferred\<close> that \<^verbatim>\<open>run_service\<close> returned for a service is pending with the one
  callback that yields the transport, or its result is the transport of that service
  (the \<^verbatim>\<open>Deferred[IProcessTransport]\<close> of the docstring), or the failure
  \<^verbatim>\<open>Exception("Service failed.")\<close>; and \<^verbatim>\<open>exited\<close> is pending while the transport has its
  \<^verbatim>\<open>pid\<close> and has the result \<^verbatim>\<open>None\<close> afterwards. Nothing else is ever stored in them.
\<close>

theorem returned_deferred_type:
  assumes run: "run (initial platform_name python environ) acts ds w" and p: "p < length ds"
  shows "(case result (deferred_at w (ds ! p)) of
            None \<Rightarrow> callbacks (deferred_at w (ds ! p)) = [process_callback p]
          | Some (Success v) \<Rightarrow> v = PyProcess p
          | Some (Failure e) \<Rightarrow> e = service_failed) \<and>
         (case result (deferred_at w (exited (proto (process_at w p)))) of
            None \<Rightarrow> pid (process_at w p) \<noteq> None
          | Some r \<Rightarrow> r = Success PyNone \<and> pid (process_at w p) = None)"
proof -
  from run_inv [OF run lifecycle_inv_initial] have inv: "lifecycle_inv ds w" by simp
  then have sinv: "session_inv ds w" by (rule lifecycle_inv_session)
  from inv p have valid: "valid_process w p" by (simp add: lifecycle_inv_valid)
  let ?d = "deferred_at w (ds ! p)" and ?x = "deferred_at w (exited (proto (process_at w p)))"
  from protocol_inv_refs [OF session_inv_protocol [OF sinv valid]]
  have "deferred_wf ?d" "deferred_wf ?x" by (simp_all add: store_wf_at)
  then have called: "called ?d \<longleftrightarrow> result ?d \<noteq> None" "called ?x \<longleftrightarrow> result ?x \<noteq> None"
    by (simp_all add: deferred_wf_def)
  from lifecycle_inv_service [OF inv p] have "launch_inv w (ds ! p) p"
    by (simp add: service_inv_def)
  with called(1) have first: "case result ?d of
      None \<Rightarrow> callbacks ?d = [process_callback p]
    | Some (Success v) \<Rightarrow> v = PyProcess p
    | Some (Failure e) \<Rightarrow> e = service_failed"
    by (auto simp: launch_inv_def succeeded_def failed_def split: option.splits outcome.splits)
  from session_inv_pid [OF sinv valid] session_inv_exit [OF sinv valid] called(2)
  have "case result ?x of None \<Rightarrow> pid (process_at w p) \<noteq> None
    | Some r \<Rightarrow> r = Success PyNone \<and> pid (process_at w p) = None"
    by (auto simp: exit_inv_def succeeded_def split: option.splits if_splits)
  with first show ?thesis ..
qed

theorem returned_deferred_type_witness:
  "\<exists>w. run (initial (ascii ''linux'') (ascii ''python3'') Map.empty)
          [Launch (ascii ''READY'') (ascii ''python3'') [] None False] [0] w \<and>
        result (deferred_at w 0) = None \<and>
        callbacks (deferred_at w 0) = [process_callback 0]"
proof -
  let ?w0 = "initial (ascii ''linux'') (ascii ''python3'') Map.empty"
  from launched_once [of "ascii ''linux''" "ascii ''python3''" Map.empty "ascii ''READY''"
      "ascii ''python3''" "[]" None False]
  obtain w where step: "step ?w0 (Launch (ascii ''READY'') (ascii ''python3'') [] None False) w"
    and inv: "lifecycle_inv [0] w" and pending: "called (deferred_at w 0) = False"
    by auto
  from run_single [OF step]
  have run: "run ?w0 [Launch (ascii ''READY'') (ascii ''python3'') [] None False] [0] w"
    by simp
  from inv have "valid_process w 0" by (simp add: lifecycle_inv_valid [symmetric])
  from protocol_inv_refs [OF session_inv_protocol [OF lifecycle_inv_session [OF inv] this]]
  have "deferred_wf (deferred_at w 0)" by (simp add: store_wf_at)
  with pending have none: "result (deferred_at w 0) = None" by (simp add: deferred_wf_def)
  from returned_deferred_type [OF run, of 0] none run show ?thesis
    by (intro exI [of _ w]) simp
qed



text \<open>
  C30: Teardown is in the reverse order of the launches. In every state a session
  reaches, the finalizers of the request are in the strictly decreasing order of their
  transports: the finalizer pytest takes next belongs to the service launched last
  among those that are not yet finalized, and no service has two finalizers.
\<close>

theorem teardown_in_reverse_launch_order:
  "run w0 acts ds w \<Longrightarrow> lifecycle_inv ds0 w0 \<Longrightarrow>
   sorted_wrt (>) (map finalizer_process (finalizers w0)) \<Longrightarrow>
   sorted_wrt (>) (map finalizer_process (finalizers w))"
proof (induction rule: run.induct)
  case (run_step w0 acts ds w a w')
  note sorted = run_step(3) [OF run_step(4,5)]
  from run_inv [OF run_step(1,4)] have inv: "lifecycle_inv (ds0 @ ds) w" .
  then have sinv: "session_inv (ds0 @ ds) w" by (rule lifecycle_inv_session)
  from run_step(2) show ?case
  proof (cases rule: step.cases)
    case (launch mt executable args cwd pl d)
    from finalizer_process_valid [OF sinv]
    have "\<forall>q \<in> finalizer_process ` set (finalizers w). q < length (processes w)"
      by (simp add: valid_process_def)
    with sorted show ?thesis by (simp add: run_service_new(6) [OF launch(3)])
  next
    case (event e)
    with sorted reactor_step_finalizers(1) [OF sinv event(3)] show ?thesis by simp
  next
    case (finalize_gone p ex fs)
    with sorted show ?thesis by simp
  next
    case (finalize_race p ex fs n)
    with sorted show ?thesis by simp
  next
    case (finalize_signal p ex fs n)
    from sinv finalize_signal(4) have "valid_process (w\<lparr>finalizers := fs\<rparr>) p"
      by (simp add: session_inv_def)
    from cleanup_blocked_facts(5) [OF this] sorted finalize_signal(2,4) show ?thesis by simp
  next
    case (resume p ex)
    with sorted show ?thesis by simp
  qed
qed simp

theorem teardown_in_reverse_launch_order_witness:
  "\<exists>w w'. step (initial (ascii ''linux'') (ascii ''python3'') Map.empty)
            (Launch (ascii ''READY'') (ascii ''python3'') [] None False) w \<and>
          run w [Launch (ascii ''Starting reactor...'') (ascii ''python3'') [] None False]
            [length (deferreds w)] w' \<and>
          finalizers w = [CleanupServiceProcess 0 1] \<and>
          sorted_wrt (>) (map finalizer_process (finalizers w'))"
proof -
  from launched_once [of "ascii ''linux''" "ascii ''python3''" Map.empty "ascii ''READY''"
      "ascii ''python3''" "[]" None False]
  obtain w where w: "step (initial (ascii ''linux'') (ascii ''python3'') Map.empty)
        (Launch (ascii ''READY'') (ascii ''python3'') [] None False) w"
    and inv: "lifecycle_inv [0] w" and idle: "waiting w = None"
    and fs: "finalizers w = [CleanupServiceProcess 0 1]"
    and spawn: "\<not> os_refuses_spawn w"
    by auto
  let ?a = "Launch (ascii ''Starting reactor...'') (ascii ''python3'') [] None False"
  from spawn run_service_Inr_iff [of w "ascii ''Starting reactor...''" "ascii ''python3''" "[]" None False]
  obtain d w' where "run_service w (ascii ''Starting reactor...'') (ascii ''python3'') [] None False =
      Inr (d, w')"
    by auto
  with idle have "step w ?a w'" by (rule step.launch)
  from run_single [OF this] have run: "run w [?a] [length (deferreds w)] w'" by simp
  from teardown_in_reverse_launch_order [OF run inv] fs w run show ?thesis
    by (intro exI [of _ w] exI [of _ w']) simp
qed

end
