(* ===== verification/Service_Machine.thy ===== *)
theory Service_Machine
  imports Lifecycle
begin

text \<open>
  One service on its own. The specification describes a launched service by a record
  of its own (the process handle, the readiness signal, the exit signal, the buffer);
  here this is the view of a service, what the session holds of it, and \<open>service_step\<close>
  is what an event of the child does to the view. The theory shows that a session is
  the product of its services: the view of a service after the reactor has handled any
  sequence of events is the view the service's own events produce, whatever the other
  services did in between.
\<close>

section \<open>The view of a service and its machine\<close>

type_synonym service = "process \<times> pyval deferred \<times> pyval deferred"

text \<open>The transport with its protocol, the readiness \<^verbatim>\<open>Deferred\<close> \<open>d\<close> and \<^verbatim>\<open>exited\<close>.\<close>

definition service_view :: "'a session_scheme \<Rightarrow> ref \<Rightarrow> ref \<Rightarrow> service" where
  "service_view w d p =
     (process_at w p, deferred_at w d, deferred_at w (exited (proto (process_at w p))))"

text \<open>
  Data on descriptor 1 that decodes is appended to the buffer, and readiness fires when
  it is pending and the buffer holds the magic text; data that does not decode, and
  data of the other descriptors, changes nothing. The exit takes the \<^verbatim>\<open>pid\<close>, fails a
  pending readiness and fires \<^verbatim>\<open>exited\<close>.
\<close>

fun service_step :: "service \<Rightarrow> os_event \<Rightarrow> service" where
  "service_step (x, ready, gone) (ChildWrote p childFD data) =
     (case decode_utf8 data of
        Inl e \<Rightarrow> (x, ready, gone)
      | Inr s \<Rightarrow>
          if childFD \<noteq> 1 then (x, ready, gone)
          else if magic_seen (proto x) \<noteq> None \<and>
                  contains (magic_text (proto x)) (output_buf (proto x) @ s)
          then (x\<lparr>proto := (proto x)\<lparr>output_buf := output_buf (proto x) @ s,
                                      magic_seen := None\<rparr>\<rparr>,
                fired ready (Success PyProtocol), gone)
          else (x\<lparr>proto := (proto x)\<lparr>output_buf := output_buf (proto x) @ s\<rparr>\<rparr>, ready, gone))"
| "service_step (x, ready, gone) (ChildExited p reason) =
     (x\<lparr>pid := None, proto := (proto x)\<lparr>magic_seen := None\<rparr>\<rparr>,
      if magic_seen (proto x) \<noteq> None then fired ready (Failure service_failed) else ready,
      fired gone (Success PyNone))"
| "service_step (x, ready, gone) (ProcessVanished p) = (x\<lparr>os_gone := True\<rparr>, ready, gone)"

definition service_run :: "service \<Rightarrow> os_event list \<Rightarrow> service" where
  "service_run v es = fold (\<lambda>e v. service_step v e) es v"

lemma service_run_simps [simp]:
  "service_run v [] = v"
  "service_run v (e # es) = service_run (service_step v e) es"
  by (simp_all add: service_run_def)

section \<open>An event of a service is a step of its machine\<close>

lemma set_deferred_session [simp]:
  fixes w :: "'a session_scheme"
  shows "processes (set_deferred w r d) = processes w"
    and "process_at (set_deferred w r d) p = process_at w p"
    and "valid_process (set_deferred w r d) p = valid_process w p"
  by (simp_all add: set_deferred_def process_at_def valid_process_def)

lemma childWrote_undecodable_view:
  fixes w :: "'a session_scheme"
  assumes valid: "valid_process w p" and data: "decode_utf8 data = Inl e"
  shows "service_view (reactor_step w (ChildWrote p childFD data)) d p =
         service_step (service_view w d p) (ChildWrote p childFD data)"
proof -
  let ?self = "proto (process_at w p)"
  from data have "childDataReceived ?self w childFD data = Inl UnicodeDecodeError \<or>
      childDataReceived ?self w childFD data = Inr (?self, w)"
    by (cases "childFD = 1"; cases "childFD = 2")
       (simp_all add: out_received_undecodable err_received_undecodable
          childDataReceived_other)
  with data valid show ?thesis
    by (auto simp: reactor_step_def on_protocol_def service_view_def
          process_at_set_process)
qed

lemma childWrote_side_view:
  fixes w :: "'a session_scheme"
  assumes valid: "valid_process w p" and data: "decode_utf8 data = Inr s"
    and side: "childFD \<noteq> 1"
  shows "service_view (reactor_step w (ChildWrote p childFD data)) d p =
         service_step (service_view w d p) (ChildWrote p childFD data)"
proof -
  let ?self = "proto (process_at w p)"
  from data side have "\<exists>w1. childDataReceived ?self w childFD data = Inr (?self, w1) \<and>
      deferreds w1 = deferreds w \<and> processes w1 = processes w"
    by (cases "childFD = 2")
       (simp_all add: err_received_decoded childDataReceived_other)
  with data side valid show ?thesis
    by (auto simp: reactor_step_def on_protocol_def service_view_def
          process_at_def deferred_at_def set_process_def valid_process_def)
qed

lemma childWrote_view:
  fixes w :: "'a session_scheme"
  assumes inv: "session_inv ds w" and valid: "valid_process w p"
  shows "service_view (reactor_step w (ChildWrote p childFD data)) (ds ! p) p =
         service_step (service_view w (ds ! p) p) (ChildWrote p childFD data)"
proof -
  let ?x = "process_at w p" and ?d = "ds ! p"
  let ?self = "proto ?x"
  from inv valid have pinv: "protocol_inv ?d ?self w" by (rule session_inv_protocol)
  note refs = protocol_inv_refs [OF pinv]
  consider (undecodable) e where "decode_utf8 data = Inl e"
    | (side) s where "decode_utf8 data = Inr s" "childFD \<noteq> 1"
    | (quiet) s where "decode_utf8 data = Inr s" "childFD = 1"
        "magic_seen ?self = None \<or> \<not> contains (magic_text ?self) (output_buf ?self @ s)"
    | (ready) s where "decode_utf8 data = Inr s" "childFD = 1" "magic_seen ?self = Some ?d"
        "contains (magic_text ?self) (output_buf ?self @ s)"
    using protocol_inv_attr [OF pinv] by (cases "decode_utf8 data") auto
  then show ?thesis
  proof cases
    case undecodable
    with valid show ?thesis by (rule childWrote_undecodable_view)
  next
    case side
    with valid show ?thesis by (rule childWrote_side_view)
  next
    case quiet
    then have "out_received ?self w data =
        Inr (?self\<lparr>output_buf := output_buf ?self @ s\<rparr>, echo ?self w s)"
      by (auto simp: out_received_fired out_received_no_match)
    with quiet valid show ?thesis
      by (auto simp: reactor_step_def on_protocol_def service_view_def echo_def
            process_at_set_process)
  next
    case ready
    from pinv ready(3) have "\<not> called (deferred_at w ?d)"
      by (auto dest: protocol_inv_pending)
    with out_received_match [OF ready(1,3,4), of w]
    have "out_received ?self w data =
        Inr (?self\<lparr>output_buf := output_buf ?self @ s, magic_seen := None\<rparr>,
             set_deferred (print_stdout (echo ?self w s) (saw_message (magic_text ?self)))
               ?d (fired (deferred_at w ?d) (Success PyProtocol)))"
      by (simp add: callback_at_eq)
    with ready valid refs show ?thesis
      by (simp add: reactor_step_def on_protocol_def service_view_def echo_def
            process_at_set_process)
  qed
qed

lemma childExited_view:
  fixes w :: "'a session_scheme"
  assumes inv: "session_inv ds w" and valid: "valid_process w p"
    and alive: "pid (process_at w p) \<noteq> None"
  shows "service_view (reactor_step w (ChildExited p reason)) (ds ! p) p =
         service_step (service_view w (ds ! p) p) (ChildExited p reason)"
proof -
  let ?x = "process_at w p" and ?d = "ds ! p"
  let ?self = "proto ?x" and ?w0 = "set_process w p ((process_at w p)\<lparr>pid := None\<rparr>)"
  from inv valid have pinv: "protocol_inv ?d ?self w" by (rule session_inv_protocol)
  then have pinv0: "protocol_inv ?d ?self ?w0" by simp
  note refs = protocol_inv_refs [OF pinv]
  from session_inv_pid [OF inv valid] alive
  have pending: "\<not> called (deferred_at w (exited ?self))" by simp
  from valid have x0: "process_at ?w0 p = ?x\<lparr>pid := None\<rparr>"
    by (simp add: process_at_set_process)
  show ?thesis
  proof (cases "magic_seen ?self")
    case None
    from processEnded_settled [OF None, of ?w0 reason] pending x0 valid refs None
    show ?thesis
      by (simp add: reactor_step_def on_protocol_def service_view_def
            process_at_set_process)
  next
    case (Some d)
    with pinv have d: "d = ?d" by (auto dest: protocol_inv_pending)
    from processEnded_pending [OF pinv0, of reason] Some d x0 valid refs
    show ?thesis
      by (simp add: reactor_step_def on_protocol_def service_view_def
            process_at_set_process)
  qed
qed

lemma reactor_step_view:
  fixes w :: "'a session_scheme"
  assumes inv: "session_inv ds w" and valid: "valid_process w p" and en: "enabled w e"
  shows "service_view (reactor_step w e) (ds ! p) p =
         (if event_process e = p then service_step (service_view w (ds ! p) p) e
          else service_view w (ds ! p) p)"
proof (cases "event_process e = p")
  case True
  show ?thesis
  proof (cases e)
    case (ChildWrote q childFD data)
    with True childWrote_view [OF inv valid] show ?thesis by simp
  next
    case (ChildExited q reason)
    with True en childExited_view [OF inv valid] show ?thesis by simp
  next
    case (ProcessVanished q)
    with True valid show ?thesis
      by (simp add: reactor_step_def service_view_def process_at_set_process)
  qed
next
  case False
  with event_other_service [OF inv valid en] show ?thesis
    by (simp add: service_view_def)
qed

lemma fst_service_view: "fst (service_view w d p) = process_at w p"
  by (simp add: service_view_def)

text \<open>Data changes nothing of a transport but its protocol object.\<close>

lemma service_step_write:
  "\<exists>self'. fst (service_step v (ChildWrote q childFD data)) = (fst v)\<lparr>proto := self'\<rparr> \<and>
           exited self' = exited (proto (fst v))"
proof (cases v)
  case (fields x ready gone)
  have "x = x\<lparr>proto := proto x\<rparr>" by simp
  with fields show ?thesis
    by (cases "decode_utf8 data") (auto intro: exI [of _ "proto x"])
qed

lemma writes_keep_transport:
  fixes w :: "'a session_scheme"
  assumes "session_inv ds w" and "valid_process w p"
    and "feasible w (map (ChildWrote p childFD) chunks)"
  shows "\<exists>self'. process_at (reactor_run w (map (ChildWrote p childFD) chunks)) p =
           (process_at w p)\<lparr>proto := self'\<rparr>"
  using assms
proof (induction chunks arbitrary: w)
  case Nil
  have "process_at w p = (process_at w p)\<lparr>proto := proto (process_at w p)\<rparr>" by simp
  then show ?case by (auto intro: exI [of _ "proto (process_at w p)"])
next
  case (Cons c chunks)
  let ?e = "ChildWrote p childFD c"
  from Cons.prems(3) have en: "enabled w ?e" and rest: "feasible (reactor_step w ?e)
      (map (ChildWrote p childFD) chunks)"
    by simp_all
  from reactor_step_view [OF Cons.prems(1,2) en]
  have "fst (service_view (reactor_step w ?e) (ds ! p) p) =
      fst (service_step (service_view w (ds ! p) p) ?e)"
    by simp
  then have "process_at (reactor_step w ?e) p =
      fst (service_step (service_view w (ds ! p) p) ?e)"
    by (simp add: fst_service_view)
  with service_step_write [of "service_view w (ds ! p) p" p childFD c]
  obtain self1 where x1: "process_at (reactor_step w ?e) p = (process_at w p)\<lparr>proto := self1\<rparr>"
    by (auto simp: fst_service_view)
  from Cons.prems(1) en have "session_inv ds (reactor_step w ?e)" by (rule reactor_step_inv)
  moreover from Cons.prems(2) have "valid_process (reactor_step w ?e) p"
    by (simp add: reactor_step_valid_process [OF Cons.prems(1) en])
  ultimately obtain self' where
    "process_at (reactor_run (reactor_step w ?e) (map (ChildWrote p childFD) chunks)) p =
       (process_at (reactor_step w ?e) p)\<lparr>proto := self'\<rparr>"
    using rest Cons.IH by blast
  with x1 have "process_at (reactor_run w (map (ChildWrote p childFD) (c # chunks))) p =
      (process_at w p)\<lparr>proto := self'\<rparr>"
    by simp
  then show ?case ..
qed

lemma readable_fds_proto [simp]: "readable_fds (x\<lparr>proto := self\<rparr>) = readable_fds x"
  by (simp add: readable_fds_def)

section \<open>A session is the product of its services\<close>

text \<open>Two services launched one after the other in a new session.\<close>

lemma two_services:
  "\<exists>w1 w2. run_service (new_session platform_name python environ) mt executable args cwd pl =
            Inr (0, w1) \<and>
          run_service w1 mt' executable' args' cwd' pl' = Inr (2, w2) \<and>
          session_inv [0, 2] w2 \<and> valid_process w2 0 \<and> valid_process w2 1 \<and>
          process_at w2 0 = launched_process (new_session platform_name python environ)
                              mt executable args cwd pl \<and>
          process_at w2 1 = launched_process w1 mt' executable' args' cwd' pl' \<and>
          deferred_at w2 0 = Deferred\<lparr>callbacks := [process_callback 0]\<rparr> \<and>
          deferred_at w2 2 = Deferred\<lparr>callbacks := [process_callback 1]\<rparr>"
proof -
  let ?w0 = "new_session platform_name python environ"
  have spawn0: "\<not> os_refuses_spawn ?w0" by (simp add: new_session_def)
  from first_launch [of platform_name python environ mt executable args cwd pl] obtain w1
    where run1: "run_service ?w0 mt executable args cwd pl = Inr (0, w1)"
      and inv1: "session_inv [0] w1" and valid1: "valid_process w1 0"
      and x1: "process_at w1 0 = launched_process ?w0 mt executable args cwd pl"
    by blast
  note new1 = run_service_new [OF run1]
  from run1 run_service_eq [OF spawn0, of mt executable args cwd pl]
  have spawn1: "\<not> os_refuses_spawn w1" by (auto simp: new_session_def)
  with run_service_Inr_iff [of w1 mt' executable' args' cwd' pl'] obtain d w2
    where run2: "run_service w1 mt' executable' args' cwd' pl' = Inr (d, w2)"
    by auto
  note new2 = run_service_new [OF run2] and old2 = run_service_old [OF run2]
  from new1(5) new2(1) have d: "d = 2" by (simp add: new_session_def)
  from new1(2) have len1: "length (processes w1) = 1" by (simp add: new_session_def)
  from run_service_inv [OF inv1 run2] d have inv2: "session_inv [0, 2] w2" by simp
  from new2(2) len1 have valid2: "valid_process w2 0" "valid_process w2 1"
    and x2: "process_at w2 1 = launched_process w1 mt' executable' args' cwd' pl'"
    by (simp_all add: valid_process_def process_at_def nth_append)
  from new1(1,5) have "valid_ref w1 0" by (simp add: valid_ref_def)
  from old2(1) [OF this] new1(3) have "deferred_at w2 0 = Deferred\<lparr>callbacks := [process_callback 0]\<rparr>"
    by (simp add: new_session_def)
  with run1 run2 d inv2 valid2 x2 old2(2) [OF valid1] x1 new2(3) len1 show ?thesis
    by (intro exI [of _ w1] exI [of _ w2]) simp
qed

text \<open>
  C15: A session is the product of its services. After the reactor has handled any
  sequence of events that can occur, the transport, the protocol object, the readiness
  \<^verbatim>\<open>Deferred\<close> and the \<^verbatim>\<open>exited\<close> \<^verbatim>\<open>Deferred\<close> of a service are what the service's own
  events produce, in their order, from what they were: the events of the other
  services, however they are interleaved with them, do not bear on it.
\<close>

theorem session_is_product_of_services:
  fixes w :: "'a session_scheme"
  assumes "session_inv ds w" and "valid_process w p" and "feasible w es"
  shows "service_view (reactor_run w es) (ds ! p) p =
         service_run (service_view w (ds ! p) p) (filter (\<lambda>e. event_process e = p) es)"
  using assms
proof (induction es arbitrary: w)
  case Nil
  show ?case by simp
next
  case (Cons e es)
  from Cons.prems(3) have en: "enabled w e" and rest: "feasible (reactor_step w e) es"
    by simp_all
  from Cons.prems(1) en have "session_inv ds (reactor_step w e)" by (rule reactor_step_inv)
  moreover from Cons.prems(2) have "valid_process (reactor_step w e) p"
    by (simp add: reactor_step_valid_process [OF Cons.prems(1) en])
  ultimately have "service_view (reactor_run (reactor_step w e) es) (ds ! p) p =
      service_run (service_view (reactor_step w e) (ds ! p) p)
        (filter (\<lambda>e. event_process e = p) es)"
    using rest by (rule Cons.IH)
  then show ?case by (simp add: reactor_step_view [OF Cons.prems(1,2) en])
qed

theorem session_is_product_of_services_witness:
  "\<exists>w1 w2. run_service (new_session (ascii ''linux'') (ascii ''python3'') Map.empty)
            (ascii ''READY'') (ascii ''python3'') [] None False = Inr (0, w1) \<and>
          run_service w1 (ascii ''UP'') (ascii ''python3'') [] None False = Inr (2, w2) \<and>
          is_success (deferred_at (reactor_run w2
            [ChildWrote 1 1 (ascii_bytes ''READY''), ChildWrote 0 1 (ascii_bytes ''READY'')]) 0) \<and>
          deferred_at (reactor_run w2 [ChildWrote 1 1 (ascii_bytes ''READY'')]) 0 = deferred_at w2 0"
proof -
  let ?w0 = "new_session (ascii ''linux'') (ascii ''python3'') Map.empty"
  let ?e1 = "ChildWrote 1 1 (ascii_bytes ''READY'')" and ?e0 = "ChildWrote 0 1 (ascii_bytes ''READY'')"
  from two_services [of "ascii ''linux''" "ascii ''python3''" Map.empty "ascii ''READY''"
      "ascii ''python3''" "[]" None False "ascii ''UP''" "ascii ''python3''" "[]" None False]
  obtain w1 w2
    where run: "run_service ?w0 (ascii ''READY'') (ascii ''python3'') [] None False = Inr (0, w1)"
      "run_service w1 (ascii ''UP'') (ascii ''python3'') [] None False = Inr (2, w2)"
    and inv: "session_inv [0, 2] w2" and valid: "valid_process w2 0" "valid_process w2 1"
    and x: "process_at w2 0 = launched_process ?w0 (ascii ''READY'') (ascii ''python3'') [] None False"
      "process_at w2 1 = launched_process w1 (ascii ''UP'') (ascii ''python3'') [] None False"
    and d: "deferred_at w2 0 = Deferred\<lparr>callbacks := [process_callback 0]\<rparr>"
    by blast
  from valid x have en1: "enabled w2 ?e1" by (simp add: readable_fds_launched)
  from event_other_service(1) [OF inv valid(1) en1] x(1)
    reactor_step_valid_process [OF inv en1, of 0] valid(1)
  have "enabled (reactor_step w2 ?e1) ?e0" by (simp add: readable_fds_launched)
  with en1 have f: "feasible w2 [?e1, ?e0]" "feasible w2 [?e1]" by simp_all
  have dec: "decode_utf8 (ascii_bytes ''READY'') = Inr (ascii ''READY'')"
    by (simp add: decode_utf8_ascii_bytes)
  from session_is_product_of_services [OF inv valid(1) f(1)]
    session_is_product_of_services [OF inv valid(1) f(2)] x(1) d dec run
  show ?thesis
    by (intro exI [of _ w1] exI [of _ w2]) (simp add: service_view_def)
qed

end
