(* ===== verification/Spec2Isabelle.thy ===== *)
theory Spec2Isabelle
  imports Service_Machine
begin

text \<open>
  A verification development for \<^verbatim>\<open>src/integration/util.py\<close> of the repository: the
  helpers with which the integration tests launch a service as a child process, wait
  until it has announced on its standard output that it is ready, and stop it when the
  test session ends.

  \<^bold>\<open>The program.\<close> The file has four parts.

  \<^item> \<^verbatim>\<open>_MagicTextProtocol\<close>, a Twisted \<^verbatim>\<open>ProcessProtocol\<close>. The reactor calls
    \<^verbatim>\<open>childDataReceived\<close> with each chunk of bytes the child writes and \<^verbatim>\<open>processEnded\<close>
    when the child is gone. Chunks of descriptor 1 are decoded, appended to a buffer and
    the buffer is searched for the magic text; the first time it is found the
    \<^verbatim>\<open>Deferred\<close> \<^verbatim>\<open>magic_seen\<close> fires. If the process ends first, \<^verbatim>\<open>magic_seen\<close> fails
    with \<^verbatim>\<open>Exception("Service failed.")\<close>. The \<^verbatim>\<open>Deferred\<close> \<^verbatim>\<open>exited\<close> fires when the
    process has ended.
  \<^item> \<^verbatim>\<open>run_service\<close> creates the protocol, spawns the process through the reactor,
    registers \<^verbatim>\<open>_cleanup_service_process\<close> as a finalizer of the test request and
    returns \<^verbatim>\<open>magic_seen\<close> with a callback that replaces its value by the process
    transport.
  \<^item> \<^verbatim>\<open>_cleanup_service_process\<close> signals the process with \<^verbatim>\<open>TERM\<close> and blocks until
    \<^verbatim>\<open>exited\<close> has fired; a process that is already gone is not an error.
  \<^item> \<^verbatim>\<open>WormholeMailboxServer.create\<close> runs the mailbox server with \<^verbatim>\<open>run_service\<close> and
    the magic text \<^verbatim>\<open>Starting reactor...\<close>.

  \<^bold>\<open>The theories.\<close>

  \<^item> \<open>Fow_Prelude\<close>: the types of the model (\<open>byte\<close>, \<open>bytes\<close>, \<open>str\<close> as a list of code
    points, \<open>ref\<close>), Python's exceptions as the datatype \<open>exn\<close>, results \<open>exn + 'a\<close> with
    \<open>and_then\<close>, and list lemmas shared by the components.
  \<^item> \<open>Py_Text\<close>: the operations on text the program uses: \<open>contains\<close> for Python's
    \<^verbatim>\<open>in\<close> on strings (line 48), proved to be the library's \<open>sublist\<close>, \<open>find_str\<close>,
    \<open>str_of_nat\<close> for the formatting of a process id (line 120), \<open>py_print\<close> and
    \<open>stdout_write\<close> for \<^verbatim>\<open>print\<close> and \<^verbatim>\<open>sys.stdout.write\<close>.
  \<^item> \<open>Utf8\<close>: \<^verbatim>\<open>bytes.decode("utf8")\<close> (lines 46, 47 and 61) as the strict decoder
    \<open>decode_utf8\<close> of the Unicode standard's table of well-formed byte sequences, defined
    by a \<open>function\<close> whose termination is proved from \<open>utf8_first_bounds\<close>; a reference
    encoder \<open>encode_utf8\<close>; the round trip; decoding distributes over the concatenation
    of chunks that decode.
  \<^item> \<open>Twisted_Deferred\<close>: the part of \<^verbatim>\<open>Deferred\<close> the program relies on, as a record
    with \<open>callback\<close>, \<open>errback\<close> (a second firing raises \<^verbatim>\<open>AlreadyCalledError\<close>) and
    \<open>addCallback\<close>; well-formedness \<open>deferred_wf\<close> is kept by every operation.
  \<^item> \<open>Py_Runtime\<close>: the mutable world as a record: a store of \<^verbatim>\<open>Deferred\<close>s addressed by
    reference (two variables that hold the same \<^verbatim>\<open>Deferred\<close> are the same reference)
    and the launcher's \<^verbatim>\<open>sys.stdout\<close>. The operations are stated over the record
    scheme \<open>'a world_scheme\<close>, which is the interface the components share: a component
    that needs more state extends the record and the lemmas of the components below it
    still apply.
  \<^item> \<open>Magic_Text_Protocol\<close>: the class \<^verbatim>\<open>_MagicTextProtocol\<close> (lines 14 to 61). The
    record \<open>MagicTextProtocol\<close> has the five attributes; \<open>MagicTextProtocol_init\<close>,
    \<open>processEnded\<close>, \<open>childDataReceived\<close>, \<open>out_received\<close> and \<open>err_received\<close> are the
    methods, each a function from the object and the world to an exception or the new
    object and world. For one protocol alone the reactor is the datatype \<open>event\<close> with
    \<open>deliver\<close> and \<open>deliver_all\<close>: a list of events, delivered in order until one raises.
  \<^item> \<open>Session\<close>: what a test session holds beside the \<^verbatim>\<open>Deferred\<close>s, as the record
    \<open>session\<close> that extends \<open>world\<close>: the process transports (record \<open>process\<close>: \<^verbatim>\<open>pid\<close>,
    the protocol, the arguments of the spawn, the signals it was sent), the finalizers
    of the pytest request, \<^verbatim>\<open>os.environ\<close>, \<^verbatim>\<open>sys.platform\<close>, \<^verbatim>\<open>sys.executable\<close>. The calls
    into Twisted and pytest are \<open>spawnProcess\<close>, \<open>signalProcess\<close> (which raises
    \<^verbatim>\<open>ProcessExitedAlready\<close> for a transport without \<^verbatim>\<open>pid\<close> or a process the system no
    longer knows) and \<open>addfinalizer\<close>. The reactor with several children is the datatype
    \<open>os_event\<close> (\<open>ChildWrote\<close>, \<open>ChildExited\<close>, \<open>ProcessVanished\<close>) with \<open>react\<close>,
    \<open>enabled\<close>, \<open>reactor_step\<close> and \<open>reactor_run\<close>. The invariant \<open>session_inv\<close> is kept by
    every event; \<open>touches_process\<close> is the footprint of an event, from which the
    independence of the services follows.
  \<^item> \<open>Run_Service\<close>: the function \<^verbatim>\<open>run_service\<close> (lines 64 to 105) as \<open>run_service\<close>,
    with \<open>unbuffered_env\<close> (lines 92 and 93), \<open>service_childFDs\<close> (line 101) and
    \<open>process_callback\<close> (line 105); the finalizer it registers is the value
    \<open>CleanupServiceProcess\<close> of the datatype \<open>finalizer\<close> (line 104).
  \<^item> \<open>Cleanup\<close>: \<^verbatim>\<open>_cleanup_service_process\<close> (lines 108 to 126) as
    \<open>cleanup_service_process\<close>, with the three lines it prints; \<^verbatim>\<open>pytest_twisted.blockon\<close>
    as \<open>blockon\<close>. \<open>cleanup_blocked\<close> is the state in which the function waits.
  \<^item> \<open>Mailbox_Server\<close>: the class \<^verbatim>\<open>WormholeMailboxServer\<close> (lines 129 to 160) with
    \<open>create\<close>, \<open>mailbox_args\<close>, \<open>mailbox_magic_text\<close> and \<open>mailbox_url\<close>.
  \<^item> \<open>Lifecycle\<close>: the session as a transition system. A state is the record
    \<open>lifecycle\<close>, the session and the finalizer that waits in \<^verbatim>\<open>blockon\<close>; the relation
    \<open>step\<close> has a rule for a launch (\<open>run_service\<close>), one for an event of the reactor
    (\<open>reactor_step\<close>), three for the start of the finalizer registered last (the three
    paths of \<^verbatim>\<open>_cleanup_service_process\<close> up to its return or to \<^verbatim>\<open>blockon\<close>) and one for
    the return of \<^verbatim>\<open>blockon\<close>; \<open>run\<close> is its iteration. The phases of the specification
    are the datatype \<open>phase\<close>, a linear order; \<open>phase_of\<close> reads the phase of a service off
    the state, \<open>spec_arrow\<close> is the specification's list of arrows and \<open>phase_step\<close> the
    machine the code implements.
  \<^item> \<open>Service_Machine\<close>: one service on its own. \<open>service_view\<close> is what the session
    holds of a service (the record the specification calls \<^emph>\<open>ManagedProcess\<close>: the
    transport with its protocol, the readiness \<^verbatim>\<open>Deferred\<close>, the \<^verbatim>\<open>exited\<close> \<^verbatim>\<open>Deferred\<close>), and
    \<open>service_step\<close> is what an event of the child does to it.

  \<^bold>\<open>How the components interact.\<close> The interface is the record scheme: the methods of
  the protocol are stated over \<open>'a world_scheme\<close>, the launcher, the finalizer and the
  reactor over \<open>'a session_scheme\<close>, and the transition system instantiates both with
  the record \<open>lifecycle\<close>. A lemma of a lower theory therefore applies to every state
  above it, and the frame lemmas of each theory say which fields an operation leaves
  alone. Objects that Python shares by reference are shared by reference in the model:
  the protocol of a transport holds the references of its two \<^verbatim>\<open>Deferred\<close>s, the
  finalizer holds the references of the transport and of \<^verbatim>\<open>exited\<close>, and the callback
  of the returned \<^verbatim>\<open>Deferred\<close> holds the reference of the transport.

  \<^bold>\<open>What is shown.\<close>

  \<^item> The protocol. The invariant \<open>protocol_inv\<close> is established by \<^verbatim>\<open>__init__\<close> and kept
    by every method (\<open>protocol_inv_reachable\<close>). Readiness is a function of the
    accumulated standard output (\<open>readiness_by_accumulated_output\<close>) and does not depend
    on the chunking as long as every chunk decodes
    (\<open>readiness_independent_of_chunking\<close>); the other descriptors never bear on it
    (\<open>only_stdout_signals_readiness\<close>, \<open>side_streams_echo_or_drop\<close>). The end of the
    process fails a pending readiness and leaves a settled one alone
    (\<open>processEnded_before_marker\<close>, \<open>processEnded_after_marker\<close>), and \<^verbatim>\<open>processEnded\<close> is
    good for one call (\<open>processEnded_twice_raises\<close>). The only exception of
    \<^verbatim>\<open>childDataReceived\<close> under the invariant is \<^verbatim>\<open>UnicodeDecodeError\<close>
    (\<open>childDataReceived_raises_iff\<close>); this theory shows below that a chunk boundary
    inside a multi-byte character raises it (\<open>chunk_cut_inside_character_raises\<close>).
  \<^item> The decoder. Encoding and decoding are a round trip in both directions
    (\<open>decode_utf8_encode_utf8\<close>, \<open>encode_utf8_decode_utf8\<close>), so the decoder accepts
    exactly the canonical encodings, and it yields scalar values only, at most one per
    byte (\<open>decode_utf8_range\<close>).
  \<^item> The launcher. What \<^verbatim>\<open>run_service\<close> leaves in the session
    (\<open>run_service_launches\<close>, \<open>run_service_descriptors\<close>), that it raises only when the
    spawn does (\<open>run_service_raises_iff\<close>), and that it keeps the invariant and leaves
    the services that exist alone (\<open>run_service_keeps_invariant\<close>).
  \<^item> The finalizer. It returns exactly if the child exits
    (\<open>cleanup_returns_iff_child_exits\<close>); what it has done when it returns
    (\<open>cleanup_signals_then_waits\<close>); a process that has exited is not signalled
    (\<open>cleanup_of_exited_process\<close>); the race with an exit is swallowed
    (\<open>cleanup_swallows_exited_already\<close>); it never raises (\<open>cleanup_never_raises\<close>); a
    second call sends nothing (\<open>cleanup_twice\<close>).
  \<^item> The mailbox server. \<^verbatim>\<open>create\<close> returns once the banner was printed
    (\<open>create_returns_server\<close>), raises when the service exits first
    (\<open>create_raises_when_service_exits\<close>), and yields nothing else (\<open>create_outcomes\<close>).
    Its whole life, from \<^verbatim>\<open>create\<close> to the return of the finalizer that \<^verbatim>\<open>run_service\<close>
    registered, is \<open>mailbox_server_lifetime\<close> in this theory: it composes the launch,
    the protocol, the reactor and the finalizer.
  \<^item> The session. The invariant \<open>lifecycle_inv\<close> holds in every reachable state
    (\<open>lifecycle_inv_reachable\<close>); the session refines the machine of the phases
    (\<open>lifecycle_refines_phases\<close>) and phases only advance (\<open>phases_only_advance\<close>); a
    process is signalled by its finalizer only, once, and while it lives
    (\<open>signal_only_by_finalizer_of_live_process\<close>); a terminated service is inert
    (\<open>terminated_service_is_inert\<close>); readiness settles once
    (\<open>readiness_settles_once\<close>) and the two \<^verbatim>\<open>Deferred\<close>s of a service hold values of
    one type only (\<open>returned_deferred_type\<close>); a finalizer that waits goes on when the
    child exits (\<open>waiting_finalizer_resumes\<close>). The steps of a finalizer are the function
    of theory \<open>Cleanup\<close>: the state in which \<open>cleanup_service_process\<close> returns is
    reached by \<open>Finalize\<close>, the events up to the exit, and \<open>Resume\<close>
    (\<open>finalizer_as_steps\<close>); for this the reactor is shown not to read the field
    \<open>waiting\<close>. The finalizers are kept in the reverse order of the launches
    (\<open>teardown_in_reverse_launch_order\<close>). Two theorems compare the code with the
    specification's list of states: \<open>failed_start_is_terminated\<close> and
    \<open>finalizer_while_starting\<close>.
  \<^item> The services of a session. The view of a service after any feasible sequence of
    events is the result of \<open>service_step\<close> on the service's own events
    (\<open>session_is_product_of_services\<close>): services do not interfere, and how the
    reactor interleaves the events of different services changes the view of none.

  \<^bold>\<open>Exceptions and state.\<close> A method returns \<open>Inl e\<close> when the Python method raises
  \<open>e\<close>, and then no state is returned. This loses nothing for the exceptions that can
  occur: \<^verbatim>\<open>UnicodeDecodeError\<close> is raised by the first \<^verbatim>\<open>decode\<close> of a method, before any
  attribute is assigned, and \<^verbatim>\<open>AlreadyCalledError\<close> is raised only by a second
  \<^verbatim>\<open>processEnded\<close>, which the reactor does not send. The reactor catches what a handler
  raises: \<open>reactor_step\<close> leaves the state as it is then. In the finalizer the state at
  the raise matters, because the \<^verbatim>\<open>except\<close> clause goes on from it, and
  \<open>cleanup_service_process\<close> keeps it.

  \<^bold>\<open>Bounds, waiting and termination.\<close> There is no fuel in the development and every
  function is total: the decoder by a termination proof, the runs by recursion on the
  list of events. A call that waits (\<^verbatim>\<open>blockon\<close>, \<^verbatim>\<open>await\<close>) takes the finite list of the
  events the reactor handles from then on and yields \<open>None\<close> when the list ends before
  the awaited \<^verbatim>\<open>Deferred\<close> has fired; this is the call that does not return, and the
  theorems on the finalizer and on \<^verbatim>\<open>create\<close> say for which lists the value is \<open>Some\<close>.
  The list is arbitrary, so no bound on the number of events or of services is built
  in. Bytes are \<open>8 word\<close>; code points, descriptors, process ids and references are
  natural numbers (Python's integers do not overflow).

  \<^bold>\<open>Not modelled.\<close> The reactor's event loop and the operating system (pipes, process
  creation, signal delivery) are represented by the events and by the two flags
  \<open>os_refuses_spawn\<close> and \<open>os_gone\<close>, not modelled themselves: which events occur is an
  input. A spawn fails with \<^verbatim>\<open>OSError\<close> only; the effect of \<^verbatim>\<open>TERM\<close> on the child is not
  modelled, an exit is an event like any other. The callbacks that \<^verbatim>\<open>blockon\<close> and
  \<^verbatim>\<open>await\<close> add to a \<^verbatim>\<open>Deferred\<close> to be woken are left out (they do not change its
  result), and so is the logging of a failure that nobody handles. Of pytest only the
  list of finalizers and their order are represented. The launched service is not
  part of the program.
\<close>

section \<open>Chunk boundaries and multi-byte characters\<close>


section \<open>The life of the mailbox server\<close>

text \<open>
  The finalizer of a launched service whose child writes to its standard output and
  then exits: the state in which it returns.
\<close>

lemma finalizer_of_writing_child:
  fixes w :: "'a session_scheme" and reason :: reason
  assumes inv: "session_inv ds w" and valid: "valid_process w p"
    and alive: "pid (process_at w p) = Some n" "\<not> os_gone (process_at w p)"
    and fd: "1 \<in> set (readable_fds (process_at w p))"
    and dec: "list_all2 (\<lambda>c s. decode_utf8 c = Inr s) chunks texts"
  defines "es \<equiv> map (ChildWrote p 1) chunks @ [ChildExited p reason]"
  shows "\<exists>w'. cleanup_service_process w p (exited (proto (process_at w p))) es =
                 Some (Inr (w', [])) \<and>
              session_inv ds w' \<and> pid (process_at w' p) = None \<and>
              signals_sent (process_at w' p) = signals_sent (process_at w p) @ [ascii ''TERM''] \<and>
              called (deferred_at w' (exited (proto (process_at w p)))) \<and>
              suffix (goodbye_message @ [10]) (sys_stdout w')"
proof -
  let ?b = "cleanup_blocked w p n" and ?writes = "map (ChildWrote p 1) chunks"
  from inv valid alive have binv: "session_inv ds ?b" by (rule cleanup_blocked_inv)
  note b = cleanup_blocked_facts(1,2) [OF valid, of n]
  from b valid have bvalid: "valid_process ?b p" by simp
  from b alive fd have bx: "pid (process_at ?b p) \<noteq> None" "1 \<in> set (readable_fds (process_at ?b p))"
    by (simp_all add: readable_fds_def)
  from reactor_run_stdout [OF dec binv bvalid bx] have f: "feasible ?b ?writes" ..
  from writes_keep_transport [OF binv bvalid f] bx(1) reactor_run_facts(1) [OF binv f, of p] bvalid
  have "enabled (reactor_run ?b ?writes) (ChildExited p reason)" by auto
  with f have feasible: "feasible ?b es" by (simp add: es_def)
  have exit: "list_ex (is_exit p) es" by (simp add: es_def)
  let ?w1 = "reactor_run ?b (until_exit p es)"
  note st = cleanup_waited_state [OF inv valid alive feasible exit]
  from cleanup_waits [OF inv valid alive feasible] exit
  have "cleanup_service_process w p (exited (proto (process_at w p))) es =
      Some (Inr (print_stdout ?w1 goodbye_message, []))"
    by (simp add: es_def)
  moreover from session_inv_pid [OF st(1,2)] st(3,5)
  have "called (deferred_at ?w1 (exited (proto (process_at w p))))" by simp
  ultimately show ?thesis using st(1,3,4)
    by (intro exI [of _ "print_stdout ?w1 goodbye_message"]) (simp add: suffix_def)
qed

text \<open>A launched service whose child has written to its standard output.\<close>

lemma launched_child_writes:
  fixes wl :: "'a session_scheme"
  assumes inv: "session_inv ds wl" and valid: "valid_process wl p"
    and x: "process_at wl p = launched_process w mt executable args cwd pl"
    and dec: "list_all2 (\<lambda>c s. decode_utf8 c = Inr s) chunks texts"
  defines "w1 \<equiv> reactor_run wl (map (ChildWrote p 1) chunks)"
  shows "session_inv ds w1" and "valid_process w1 p"
    and "pid (process_at w1 p) = Some (os_next_pid w)" and "\<not> os_gone (process_at w1 p)"
    and "1 \<in> set (readable_fds (process_at w1 p))" and "signals_sent (process_at w1 p) = []"
    and "exited (proto (process_at w1 p)) = Suc (length (deferreds w))"
    and "finalizers w1 = finalizers wl"
proof -
  from x have "pid (process_at wl p) \<noteq> None" "1 \<in> set (readable_fds (process_at wl p))"
    by (simp_all add: readable_fds_launched)
  from reactor_run_stdout [OF dec inv valid this]
  have f: "feasible wl (map (ChildWrote p 1) chunks)" ..
  note keep = reactor_run_facts(1-3) [OF inv f]
  from inv f show "session_inv ds w1" unfolding w1_def by (rule reactor_run_inv)
  from valid keep(1) [of p] show "valid_process w1 p" by (simp add: w1_def)
  from keep(3) show "finalizers w1 = finalizers wl" by (simp add: w1_def)
  from keep(2) [of p] x show "exited (proto (process_at w1 p)) = Suc (length (deferreds w))"
    by (simp add: w1_def)
  from writes_keep_transport [OF inv valid f] x obtain self'
    where "process_at w1 p = (launched_process w mt executable args cwd pl)\<lparr>proto := self'\<rparr>"
    by (auto simp: w1_def)
  then show "pid (process_at w1 p) = Some (os_next_pid w)" and "\<not> os_gone (process_at w1 p)"
    and "1 \<in> set (readable_fds (process_at w1 p))" and "signals_sent (process_at w1 p) = []"
    by (simp_all add: readable_fds_launched)
qed

text \<open>
  C11: The life of the mailbox server, end to end. In a session that satisfies its
  invariant and in which the process can be spawned, when the child prints chunks that
  decode and together contain \<^verbatim>\<open>Starting reactor...\<close> and then exits, \<^verbatim>\<open>create\<close> returns
  the server with the transport of the new process; the finalizer that \<^verbatim>\<open>run_service\<close>
  registered is the first of the request, and called at teardown with the events
  \<^verbatim>\<open>create\<close> has left it returns after the exit: the process was sent \<^verbatim>\<open>TERM\<close> once,
  the transport has no \<^verbatim>\<open>pid\<close>, \<^verbatim>\<open>exited\<close> has fired, \<^verbatim>\<open>exited, goodbye\<close> is the last line
  printed, and the invariant of the session holds.
\<close>

theorem mailbox_server_lifetime:
  fixes w :: "'a session_scheme"
  assumes inv: "session_inv ds w" and spawn: "\<not> os_refuses_spawn w"
    and dec: "list_all2 (\<lambda>c s. decode_utf8 c = Inr s) chunks texts"
    and marker: "contains (ascii ''Starting reactor...'') (concat texts)"
  defines "p \<equiv> length (processes w)"
  shows "\<exists>server w1 es1 f w2.
           create w (map (ChildWrote p 1) chunks @ [ChildExited p reason]) =
             Some (Inr (server, w1, es1)) \<and>
           process_transport server = PyProcess p \<and>
           finalizers w1 = f # finalizers w \<and>
           run_finalizer w1 f es1 = Some (Inr (w2, [])) \<and>
           session_inv (ds @ [length (deferreds w)]) w2 \<and>
           pid (process_at w2 p) = None \<and>
           signals_sent (process_at w2 p) = [ascii ''TERM''] \<and>
           called (deferred_at w2 (Suc (length (deferreds w)))) \<and>
           suffix (goodbye_message @ [10]) (sys_stdout w2)"
proof -
  from inv spawn dec marker obtain d wl k
    where run: "run_service w mailbox_magic_text (sys_executable w)
        (mailbox_args (sys_executable w)) None False = Inr (d, wl)"
      and linv: "session_inv (ds @ [d]) wl" and lvalid: "valid_process wl p"
      and x: "process_at wl p = launched_process w mailbox_magic_text (sys_executable w)
          (mailbox_args (sys_executable w)) None False"
      and create: "create w (map (ChildWrote p 1) chunks @ [ChildExited p reason]) =
          Some (Inr (\<lparr>process_transport = PyProcess p, url = mailbox_url\<rparr>,
                     reactor_run wl (map (ChildWrote p 1) (take k chunks)),
                     map (ChildWrote p 1) (drop k chunks) @ [ChildExited p reason]))"
    unfolding p_def by (rule create_ready [where rest = "[ChildExited (length (processes w)) reason]"])
  note new = run_service_new [OF run]
  let ?w1 = "reactor_run wl (map (ChildWrote p 1) (take k chunks))"
  from dec have "list_all2 (\<lambda>c s. decode_utf8 c = Inr s) (take k chunks) (take k texts)"
    by (rule list_all2_takeI)
  note w1 = launched_child_writes [OF linv lvalid x this]
  from dec have "list_all2 (\<lambda>c s. decode_utf8 c = Inr s) (drop k chunks) (drop k texts)"
    by (rule list_all2_dropI)
  from finalizer_of_writing_child [OF w1(1-5) this, of reason] w1(6,7) new(1)
  obtain w2 where "cleanup_service_process ?w1 p (Suc d)
        (map (ChildWrote p 1) (drop k chunks) @ [ChildExited p reason]) = Some (Inr (w2, []))"
    and "session_inv (ds @ [d]) w2" and "pid (process_at w2 p) = None"
    and "signals_sent (process_at w2 p) = [ascii ''TERM'']"
    and "called (deferred_at w2 (Suc d))"
    and "suffix (goodbye_message @ [10]) (sys_stdout w2)"
    by auto
  with create new(1,6) w1(8) show ?thesis
    by (intro exI [of _ "\<lparr>process_transport = PyProcess p, url = mailbox_url\<rparr>"]
          exI [of _ ?w1] exI [of _ "map (ChildWrote p 1) (drop k chunks) @ [ChildExited p reason]"]
          exI [of _ "CleanupServiceProcess p (Suc d)"] exI [of _ w2])
       (simp add: p_def)
qed

theorem mailbox_server_lifetime_witness:
  "\<exists>server w1 es1 f w2.
     create (new_session (ascii ''linux'') (ascii ''python3'') Map.empty)
       [ChildWrote 0 1 (ascii_bytes ''Starting reactor...''), ChildWrote 0 1 (ascii_bytes ''bye''),
        ChildExited 0 ProcessDone] = Some (Inr (server, w1, es1)) \<and>
     process_transport server = PyProcess 0 \<and> finalizers w1 = [f] \<and>
     run_finalizer w1 f es1 = Some (Inr (w2, [])) \<and>
     pid (process_at w2 0) = None \<and> signals_sent (process_at w2 0) = [ascii ''TERM''] \<and>
     called (deferred_at w2 1)"
proof -
  let ?w = "new_session (ascii ''linux'') (ascii ''python3'') Map.empty"
  have dec: "list_all2 (\<lambda>c s. decode_utf8 c = Inr s)
      [ascii_bytes ''Starting reactor...'', ascii_bytes ''bye'']
      [ascii ''Starting reactor...'', ascii ''bye'']"
    by (simp add: decode_utf8_ascii_bytes)
  have marker: "contains (ascii ''Starting reactor...'')
      (concat [ascii ''Starting reactor...'', ascii ''bye''])"
    by (simp add: contains_append_left)
  have inv: "session_inv [] ?w" by simp
  have w: "\<not> os_refuses_spawn ?w" "processes ?w = []" "finalizers ?w = []"
    "deferreds ?w = []"
    by (simp_all add: new_session_def)
  from mailbox_server_lifetime [OF inv w(1) dec marker, of ProcessDone] w(2-4)
  show ?thesis by auto
qed

end
